theory Spec2Isabelle
  imports Complex_Main
begin

section \<open>Numeric values\<close>

text \<open>
  The scheduling code computes with numpy \<open>float64\<close> arrays. A finite value is modelled
  as a real number (rounding and overflow are not modelled); the special values
  \<open>inf\<close>, \<open>-inf\<close> and \<open>nan\<close> are kept, because a numpy division by zero produces
  them (with a warning) instead of raising. Signed zeros are not distinguished.
\<close>

datatype fl = Fin real | PInf | NInf | NaN

datatype error = ValueError | IndexError | OverflowError | TypeError | AssertionError

fun is_finite :: "fl \<Rightarrow> bool" where
  "is_finite (Fin _) = True"
| "is_finite _ = False"

fun is_nan :: "fl \<Rightarrow> bool" where
  "is_nan NaN = True"
| "is_nan _ = False"

fun fneg :: "fl \<Rightarrow> fl" where
  "fneg (Fin a) = Fin (- a)"
| "fneg PInf = NInf"
| "fneg NInf = PInf"
| "fneg NaN = NaN"

fun fadd :: "fl \<Rightarrow> fl \<Rightarrow> fl" where
  "fadd NaN _ = NaN"
| "fadd _ NaN = NaN"
| "fadd (Fin a) (Fin b) = Fin (a + b)"
| "fadd PInf NInf = NaN"
| "fadd NInf PInf = NaN"
| "fadd PInf _ = PInf"
| "fadd _ PInf = PInf"
| "fadd NInf _ = NInf"
| "fadd _ NInf = NInf"

definition fsub :: "fl \<Rightarrow> fl \<Rightarrow> fl" where
  "fsub a b = fadd a (fneg b)"

fun fmul :: "fl \<Rightarrow> fl \<Rightarrow> fl" where
  "fmul NaN _ = NaN"
| "fmul _ NaN = NaN"
| "fmul (Fin a) (Fin b) = Fin (a * b)"
| "fmul PInf (Fin b) = (if b = 0 then NaN else if 0 < b then PInf else NInf)"
| "fmul NInf (Fin b) = (if b = 0 then NaN else if 0 < b then NInf else PInf)"
| "fmul (Fin a) PInf = (if a = 0 then NaN else if 0 < a then PInf else NInf)"
| "fmul (Fin a) NInf = (if a = 0 then NaN else if 0 < a then NInf else PInf)"
| "fmul PInf PInf = PInf"
| "fmul NInf NInf = PInf"
| "fmul PInf NInf = NInf"
| "fmul NInf PInf = NInf"

fun fdiv :: "fl \<Rightarrow> fl \<Rightarrow> fl" where
  "fdiv NaN _ = NaN"
| "fdiv _ NaN = NaN"
| "fdiv (Fin a) (Fin b) =
     (if b \<noteq> 0 then Fin (a / b)
      else if a = 0 then NaN else if 0 < a then PInf else NInf)"
| "fdiv (Fin a) PInf = Fin 0"
| "fdiv (Fin a) NInf = Fin 0"
| "fdiv PInf (Fin b) = (if 0 \<le> b then PInf else NInf)"
| "fdiv NInf (Fin b) = (if 0 \<le> b then NInf else PInf)"
| "fdiv PInf _ = NaN"
| "fdiv NInf _ = NaN"

text \<open>\<open>np.maximum\<close>: the larger of two values, \<open>nan\<close> if either is \<open>nan\<close>.\<close>

fun fmaximum :: "fl \<Rightarrow> fl \<Rightarrow> fl" where
  "fmaximum NaN _ = NaN"
| "fmaximum _ NaN = NaN"
| "fmaximum PInf _ = PInf"
| "fmaximum _ PInf = PInf"
| "fmaximum NInf b = b"
| "fmaximum a NInf = a"
| "fmaximum (Fin a) (Fin b) = Fin (max a b)"

fun fminimum :: "fl \<Rightarrow> fl \<Rightarrow> fl" where
  "fminimum NaN _ = NaN"
| "fminimum _ NaN = NaN"
| "fminimum NInf _ = NInf"
| "fminimum _ NInf = NInf"
| "fminimum PInf b = b"
| "fminimum a PInf = a"
| "fminimum (Fin a) (Fin b) = Fin (min a b)"

text \<open>Comparisons: every comparison with \<open>nan\<close> is false.\<close>

fun flt :: "fl \<Rightarrow> fl \<Rightarrow> bool" where
  "flt NaN _ = False"
| "flt _ NaN = False"
| "flt (Fin a) (Fin b) = (a < b)"
| "flt PInf _ = False"
| "flt _ NInf = False"
| "flt NInf _ = True"
| "flt _ PInf = True"

fun feq :: "fl \<Rightarrow> fl \<Rightarrow> bool" where
  "feq NaN _ = False"
| "feq _ NaN = False"
| "feq a b = (a = b)"

definition fle :: "fl \<Rightarrow> fl \<Rightarrow> bool" where
  "fle a b = (flt a b \<or> feq a b)"

definition fge :: "fl \<Rightarrow> fl \<Rightarrow> bool" where
  "fge a b = fle b a"

type_synonym vector = "fl list"
type_synonym matrix = "fl list list"

text \<open>
  A two-dimensional array is the list of its rows. Reductions with no identity
  (\<open>np.max\<close>, \<open>np.min\<close>, \<open>np.argmin\<close>) raise \<open>ValueError\<close> on a zero-size input.
\<close>

fun np_max :: "vector \<Rightarrow> error + fl" where
  "np_max [] = Inl ValueError"
| "np_max (x # xs) = Inr (foldl fmaximum x xs)"

fun np_min :: "vector \<Rightarrow> error + fl" where
  "np_min [] = Inl ValueError"
| "np_min (x # xs) = Inr (foldl fminimum x xs)"

definition np_sum :: "vector \<Rightarrow> fl" where
  "np_sum xs = foldl fadd (Fin 0) xs"

definition count_true :: "bool list \<Rightarrow> nat" where
  "count_true bs = length (filter (\<lambda>b. b) bs)"

fun map_err :: "('a \<Rightarrow> error + 'b) \<Rightarrow> 'a list \<Rightarrow> error + 'b list" where
  "map_err f [] = Inr []"
| "map_err f (x # xs) =
     (case f x of
        Inl e \<Rightarrow> Inl e
      | Inr y \<Rightarrow> (case map_err f xs of Inl e \<Rightarrow> Inl e | Inr ys \<Rightarrow> Inr (y # ys)))"

section \<open>Parameters\<close>

text \<open>
  \<open>params\<close> is a dictionary from names to numbers. \<open>float(v)\<close> never fails on a number;
  \<open>int(v)\<close> truncates a finite float towards zero and raises on \<open>nan\<close> and \<open>inf\<close>.
\<close>

datatype pyval = PInt int | PFloat fl

type_synonym params = "string \<rightharpoonup> pyval"

fun py_float :: "pyval \<Rightarrow> fl" where
  "py_float (PInt i) = Fin (of_int i)"
| "py_float (PFloat f) = f"

fun py_int :: "pyval \<Rightarrow> error + int" where
  "py_int (PInt i) = Inr i"
| "py_int (PFloat (Fin r)) = Inr (if 0 \<le> r then \<lfloor>r\<rfloor> else \<lceil>r\<rceil>)"
| "py_int (PFloat NaN) = Inl ValueError"
| "py_int (PFloat PInf) = Inl OverflowError"
| "py_int (PFloat NInf) = Inl OverflowError"

definition get_float :: "params \<Rightarrow> string \<Rightarrow> fl \<Rightarrow> fl" where
  "get_float ps k d = (case ps k of None \<Rightarrow> d | Some v \<Rightarrow> py_float v)"

definition get_int :: "params \<Rightarrow> string \<Rightarrow> int \<Rightarrow> error + int" where
  "get_int ps k d = (case ps k of None \<Rightarrow> Inr d | Some v \<Rightarrow> py_int v)"

section \<open>The scheduling problem\<close>

record problem =
  n_var :: int
  active_objs :: "string list"
  Q_min :: fl
  Q_max :: fl
  Q_allowed :: fl
  Q_target :: fl
  Q_eco :: fl
  Head :: fl

text \<open>\<open>_ReservoirSchedulingProblem.__init__\<close>.\<close>

definition init_problem :: "int \<Rightarrow> string list \<Rightarrow> fl \<Rightarrow> fl \<Rightarrow> params \<Rightarrow> problem" where
  "init_problem nv acts qmin qmax ps =
     \<lparr> n_var = nv, active_objs = acts, Q_min = qmin, Q_max = qmax,
       Q_allowed = get_float ps ''Q_allowed'' qmax,
       Q_target = get_float ps ''Q_target'' (fdiv (fadd qmin qmax) (Fin 2)),
       Q_eco = get_float ps ''Q_eco'' qmin,
       Head = get_float ps ''head'' (Fin 50) \<rparr>"

text \<open>
  \<open>_evaluate\<close>. \<open>X\<close> has shape \<open>(pop_size, n_var)\<close>: its rows are the decision vectors,
  and its second dimension is the problem's \<open>n_var\<close>. \<open>F\<close> starts as a zero matrix
  and the loop over \<open>enumerate(active_objs)\<close> assigns column \<open>i\<close>.
\<close>

definition np_zeros :: "nat \<Rightarrow> nat \<Rightarrow> matrix" where
  "np_zeros r c = replicate r (replicate c (Fin 0))"

definition set_col :: "matrix \<Rightarrow> nat \<Rightarrow> vector \<Rightarrow> matrix" where
  "set_col F i col = map (\<lambda>(row, v). row[i := v]) (zip F col)"

definition np_max_axis1 :: "int \<Rightarrow> matrix \<Rightarrow> error + vector" where
  "np_max_axis1 ncols X = (if ncols = 0 then Inl ValueError else map_err np_max X)"

definition flood_column :: "problem \<Rightarrow> matrix \<Rightarrow> error + vector" where
  "flood_column P X =
     (case np_max_axis1 (n_var P) X of
        Inl e \<Rightarrow> Inl e
      | Inr mx \<Rightarrow> Inr (map (\<lambda>m. fdiv m (Q_allowed P)) mx))"

definition power_column :: "problem \<Rightarrow> matrix \<Rightarrow> vector" where
  "power_column P X =
     (let total_energy = map (\<lambda>row. np_sum (map (\<lambda>x. fmul x (Head P)) row)) X
      in map fneg total_energy)"

definition supply_column :: "problem \<Rightarrow> matrix \<Rightarrow> vector" where
  "supply_column P X =
     (let deficit = map (map (\<lambda>x. fmaximum (fsub (Q_target P) x) (Fin 0))) X
      in map (\<lambda>row. fdiv (np_sum row) (fmul (Q_target P) (Fin (of_int (n_var P))))) deficit)"

definition ecology_column :: "problem \<Rightarrow> matrix \<Rightarrow> vector" where
  "ecology_column P X =
     (let unsatisfied = map (\<lambda>row. count_true (map (\<lambda>x. flt x (Q_eco P)) row)) X
      in map (\<lambda>c. fdiv (Fin (of_nat c)) (Fin (of_int (n_var P)))) unsatisfied)"

fun evaluate_loop :: "problem \<Rightarrow> matrix \<Rightarrow> (nat \<times> string) list \<Rightarrow> matrix \<Rightarrow> error + matrix" where
  "evaluate_loop P X [] F = Inr F"
| "evaluate_loop P X ((i, obj) # rest) F =
     (if obj = ''flood'' then
        (case flood_column P X of
           Inl e \<Rightarrow> Inl e
         | Inr col \<Rightarrow> evaluate_loop P X rest (set_col F i col))
      else if obj = ''power'' then evaluate_loop P X rest (set_col F i (power_column P X))
      else if obj = ''supply'' then evaluate_loop P X rest (set_col F i (supply_column P X))
      else if obj = ''ecology'' then evaluate_loop P X rest (set_col F i (ecology_column P X))
      else Inl ValueError)"

definition evaluate :: "problem \<Rightarrow> matrix \<Rightarrow> error + matrix" where
  "evaluate P X =
     evaluate_loop P X (enumerate 0 (active_objs P))
       (np_zeros (length X) (length (active_objs P)))"

text \<open>
  The per-objective formulas as the specification words them, for one decision vector
  of real release rates and real parameters. Only the divisions stay in \<open>fl\<close>.
\<close>

definition spec_flood :: "real \<Rightarrow> real list \<Rightarrow> fl" where
  "spec_flood qa xs = fdiv (Fin (Max (set xs))) (Fin qa)"

definition spec_power :: "real \<Rightarrow> real list \<Rightarrow> fl" where
  "spec_power h xs = Fin (- (\<Sum>x\<leftarrow>xs. x * h))"

definition spec_supply :: "real \<Rightarrow> int \<Rightarrow> real list \<Rightarrow> fl" where
  "spec_supply qt n xs = fdiv (Fin (\<Sum>x\<leftarrow>xs. max (qt - x) 0)) (Fin (qt * of_int n))"

definition spec_ecology :: "real \<Rightarrow> int \<Rightarrow> real list \<Rightarrow> fl" where
  "spec_ecology qe n xs = fdiv (Fin (of_nat (length (filter (\<lambda>x. x < qe) xs)))) (Fin (of_int n))"

definition known_objs :: "string list" where
  "known_objs = [''flood'', ''power'', ''supply'', ''ecology'']"

definition spec_objective :: "real \<Rightarrow> real \<Rightarrow> real \<Rightarrow> real \<Rightarrow> int \<Rightarrow> string \<Rightarrow> real list \<Rightarrow> fl" where
  "spec_objective qa qt qe h n obj xs =
     (if obj = ''flood'' then spec_flood qa xs
      else if obj = ''power'' then spec_power h xs
      else if obj = ''supply'' then spec_supply qt n xs
      else spec_ecology qe n xs)"

text \<open>The branch of the loop body taken for one objective name, as one column.\<close>

definition objective_column :: "problem \<Rightarrow> matrix \<Rightarrow> string \<Rightarrow> error + vector" where
  "objective_column P X obj =
     (if obj = ''flood'' then flood_column P X
      else if obj = ''power'' then Inr (power_column P X)
      else if obj = ''supply'' then Inr (supply_column P X)
      else if obj = ''ecology'' then Inr (ecology_column P X)
      else Inl ValueError)"

section \<open>Analysis of one solution (strategy.py)\<close>

fun fsqrt :: "fl \<Rightarrow> fl" where
  "fsqrt (Fin a) = (if 0 \<le> a then Fin (sqrt a) else NaN)"
| "fsqrt PInf = PInf"
| "fsqrt NInf = NaN"
| "fsqrt NaN = NaN"

definition np_mean :: "vector \<Rightarrow> fl" where
  "np_mean xs = fdiv (np_sum xs) (Fin (of_nat (length xs)))"

text \<open>\<open>np.std\<close> with its default \<open>ddof = 0\<close>: the root of the mean squared deviation.\<close>

definition np_std :: "vector \<Rightarrow> fl" where
  "np_std xs =
     (let m = np_mean xs;
          d = map (\<lambda>x. fsub x m) xs
      in fsqrt (np_mean (map (\<lambda>v. fmul v v) d)))"

record analysis =
  min_flow :: fl
  max_flow :: fl
  mean_flow :: fl
  std_flow :: fl
  total_volume :: fl
  min_flow_violation :: fl
  max_flow_violation :: fl
  flood_risk :: fl
  supply_deficit :: fl
  ecology_violation :: fl
  power_generation :: fl
  supply_reliability :: fl
  ecology_satisfaction :: fl

text \<open>
  \<open>analyze_single_solution\<close>. The dictionary is built in source order, so the first
  reduction that fails on an empty \<open>x\<close> is \<open>np.min\<close>. The arguments \<open>f\<close> and
  \<open>active_objs\<close> are not read.
\<close>

definition analyze_single_solution ::
    "vector \<Rightarrow> vector \<Rightarrow> string list \<Rightarrow> params \<Rightarrow> error + analysis" where
  "analyze_single_solution x f acts ps =
     (let qmin = get_float ps ''Q_min'' (Fin 0);
          qmax = get_float ps ''Q_max'' (Fin 1000);
          qallowed = get_float ps ''Q_allowed'' qmax;
          qtarget = get_float ps ''Q_target'' (fdiv (fadd qmin qmax) (Fin 2));
          qeco = get_float ps ''Q_eco'' qmin;
          head = get_float ps ''head'' (Fin 50)
      in case np_min x of
           Inl e \<Rightarrow> Inl e
         | Inr mn \<Rightarrow>
            (case np_max x of
               Inl e \<Rightarrow> Inl e
             | Inr mx \<Rightarrow>
                 Inr \<lparr> min_flow = mn,
                       max_flow = mx,
                       mean_flow = np_mean x,
                       std_flow = np_std x,
                       total_volume = np_sum x,
                       min_flow_violation = fsub mn qmin,
                       max_flow_violation = fsub mx qmax,
                       flood_risk = fdiv mx qallowed,
                       supply_deficit = np_sum (map (\<lambda>v. fmaximum (fsub qtarget v) (Fin 0)) x),
                       ecology_violation = Fin (of_nat (count_true (map (\<lambda>v. flt v qeco) x))),
                       power_generation = np_sum (map (\<lambda>v. fmul v head) x),
                       supply_reliability =
                         fdiv (Fin (of_nat (count_true (map (\<lambda>v. fge v qtarget) x))))
                              (Fin (of_nat (length x))),
                       ecology_satisfaction =
                         fdiv (Fin (of_nat (count_true (map (\<lambda>v. fge v qeco) x))))
                              (Fin (of_nat (length x))) \<rparr>))"

text \<open>
  The diagnostics as the specification words them, for a real decision vector and real
  parameters.
\<close>

definition spec_mean :: "real list \<Rightarrow> real" where
  "spec_mean xs = sum_list xs / of_nat (length xs)"

definition spec_std :: "real list \<Rightarrow> real" where
  "spec_std xs = sqrt ((\<Sum>x\<leftarrow>xs. (x - spec_mean xs)\<^sup>2) / of_nat (length xs))"

definition spec_fraction :: "(real \<Rightarrow> bool) \<Rightarrow> real list \<Rightarrow> real" where
  "spec_fraction p xs = of_nat (length (filter p xs)) / of_nat (length xs)"

definition spec_analysis ::
    "real \<Rightarrow> real \<Rightarrow> real \<Rightarrow> real \<Rightarrow> real \<Rightarrow> real \<Rightarrow> real list \<Rightarrow> analysis" where
  "spec_analysis qmin qmax qallowed qtarget qeco head xs =
     \<lparr> min_flow = Fin (Min (set xs)),
       max_flow = Fin (Max (set xs)),
       mean_flow = Fin (spec_mean xs),
       std_flow = Fin (spec_std xs),
       total_volume = Fin (sum_list xs),
       min_flow_violation = Fin (Min (set xs) - qmin),
       max_flow_violation = Fin (Max (set xs) - qmax),
       flood_risk = fdiv (Fin (Max (set xs))) (Fin qallowed),
       supply_deficit = Fin (\<Sum>x\<leftarrow>xs. max (qtarget - x) 0),
       ecology_violation = Fin (of_nat (length (filter (\<lambda>x. x < qeco) xs))),
       power_generation = Fin (\<Sum>x\<leftarrow>xs. x * head),
       supply_reliability = Fin (spec_fraction (\<lambda>x. qtarget \<le> x) xs),
       ecology_satisfaction = Fin (spec_fraction (\<lambda>x. qeco \<le> x) xs) \<rparr>"

text \<open>The six parameters as \<open>analyze_single_solution\<close> reads them, with its defaults.\<close>

definition analysis_params :: "params \<Rightarrow> fl \<times> fl \<times> fl \<times> fl \<times> fl \<times> fl" where
  "analysis_params ps =
     (let qmin = get_float ps ''Q_min'' (Fin 0);
          qmax = get_float ps ''Q_max'' (Fin 1000)
      in (qmin, qmax, get_float ps ''Q_allowed'' qmax,
          get_float ps ''Q_target'' (fdiv (fadd qmin qmax) (Fin 2)),
          get_float ps ''Q_eco'' qmin,
          get_float ps ''head'' (Fin 50)))"

section \<open>Strategy recommendation (strategy.py)\<close>

text \<open>
  \<open>np.argmin\<close>: the first index of the smallest value; a \<open>nan\<close> counts as smaller than
  every number, so the first \<open>nan\<close> wins. An empty input raises \<open>ValueError\<close>.
\<close>

fun argmin_from :: "nat \<Rightarrow> fl \<Rightarrow> nat \<Rightarrow> vector \<Rightarrow> nat" where
  "argmin_from b bv i [] = b"
| "argmin_from b bv i (v # vs) =
     (if \<not> is_nan bv \<and> (is_nan v \<or> flt v bv)
      then argmin_from i v (Suc i) vs
      else argmin_from b bv (Suc i) vs)"

fun np_argmin :: "vector \<Rightarrow> error + nat" where
  "np_argmin [] = Inl ValueError"
| "np_argmin (v # vs) = Inr (argmin_from 0 v 1 vs)"

text \<open>\<open>A[:, j]\<close> and \<open>A[i]\<close> on a list of rows; an index out of range raises \<open>IndexError\<close>.\<close>

definition get_col :: "matrix \<Rightarrow> nat \<Rightarrow> error + vector" where
  "get_col A j =
     (if \<forall>row\<in>set A. j < length row then Inr (map (\<lambda>row. row ! j) A) else Inl IndexError)"

definition get_row :: "'a list \<Rightarrow> nat \<Rightarrow> error + 'a" where
  "get_row A i = (if i < length A then Inr (A ! i) else Inl IndexError)"

text \<open>\<open>list.index\<close>: the first position of a value, \<open>ValueError\<close> if it is absent.\<close>

fun list_index :: "string list \<Rightarrow> string \<Rightarrow> error + nat" where
  "list_index [] x = Inl ValueError"
| "list_index (y # ys) x =
     (if y = x then Inr 0
      else (case list_index ys x of Inl e \<Rightarrow> Inl e | Inr i \<Rightarrow> Inr (Suc i)))"

text \<open>
  A recommendation. The \<open>description\<close> entry of the source is a constant text fixed by
  the strategy type and is left out.
\<close>

record recommendation =
  strategy_type :: string
  solution_id :: nat
  decision_variables :: vector
  objective_values :: vector

text \<open>
  One of the four priority blocks of \<open>recommend_strategies\<close>: they differ only in the
  objective name and the strategy type.
\<close>

definition priority_block ::
    "matrix \<Rightarrow> matrix \<Rightarrow> string list \<Rightarrow> string \<Rightarrow> string \<Rightarrow> recommendation list
       \<Rightarrow> error + recommendation list" where
  "priority_block pareto_X pareto_F acts obj stype recs =
     (if obj \<in> set acts then
        (case list_index acts obj of
           Inl e \<Rightarrow> Inl e
         | Inr obj_idx \<Rightarrow>
        (case get_col pareto_F obj_idx of
           Inl e \<Rightarrow> Inl e
         | Inr col \<Rightarrow>
        (case np_argmin col of
           Inl e \<Rightarrow> Inl e
         | Inr min_idx \<Rightarrow>
        (case get_row pareto_X min_idx of
           Inl e \<Rightarrow> Inl e
         | Inr x \<Rightarrow>
        (case get_row pareto_F min_idx of
           Inl e \<Rightarrow> Inl e
         | Inr f \<Rightarrow>
             Inr (recs @ [\<lparr> strategy_type = stype, solution_id = min_idx + 1,
                              decision_variables = x, objective_values = f \<rparr>]))))))
      else Inr recs)"

text \<open>\<open>np.max(A, axis=0)\<close>: the column maxima; no rows is a zero-size reduction.\<close>

fun np_max_axis0 :: "matrix \<Rightarrow> error + vector" where
  "np_max_axis0 [] = Inl ValueError"
| "np_max_axis0 (r # rs) = Inr (foldl (\<lambda>acc row. map2 fmaximum acc row) r rs)"

text \<open>
  A row times the weight vector under numpy broadcasting: equal lengths multiply
  elementwise, a length of 1 on either side is stretched, anything else raises.
\<close>

definition broadcast_mul :: "vector \<Rightarrow> vector \<Rightarrow> error + vector" where
  "broadcast_mul row w =
     (if length row = length w then Inr (map2 fmul row w)
      else if length row = 1 then Inr (map (\<lambda>b. fmul (hd row) b) w)
      else if length w = 1 then Inr (map (\<lambda>a. fmul a (hd w)) row)
      else Inl ValueError)"

definition balanced_block ::
    "matrix \<Rightarrow> matrix \<Rightarrow> string list \<Rightarrow> recommendation list \<Rightarrow> error + recommendation list" where
  "balanced_block pareto_X pareto_F acts recs =
     (if 1 < length acts \<and> 0 < length pareto_F then
        (case np_max_axis0 pareto_F of
           Inl e \<Rightarrow> Inl e
         | Inr mx \<Rightarrow>
            (let max_values = map (\<lambda>m. if feq m (Fin 0) then Fin 1 else m) mx;
                 normalized_F = map (\<lambda>row. map2 fdiv row max_values) pareto_F;
                 weights = map (\<lambda>one. fdiv one (Fin (of_nat (length acts))))
                             (replicate (length acts) (Fin 1))
             in (case map_err (\<lambda>row. broadcast_mul row weights) normalized_F of
                   Inl e \<Rightarrow> Inl e
                 | Inr weighted \<Rightarrow>
                (case np_argmin (map np_sum weighted) of
                   Inl e \<Rightarrow> Inl e
                 | Inr balanced_idx \<Rightarrow>
                (case get_row pareto_X balanced_idx of
                   Inl e \<Rightarrow> Inl e
                 | Inr x \<Rightarrow>
                (case get_row pareto_F balanced_idx of
                   Inl e \<Rightarrow> Inl e
                 | Inr f \<Rightarrow>
                     Inr (recs @ [\<lparr> strategy_type = ''balanced_strategy'',
                                      solution_id = balanced_idx + 1,
                                      decision_variables = x, objective_values = f \<rparr>])))))))
      else Inr recs)"

definition recommend_strategies ::
    "matrix \<Rightarrow> matrix \<Rightarrow> string list \<Rightarrow> nat \<Rightarrow> error + recommendation list" where
  "recommend_strategies pareto_X pareto_F acts reservoir_id =
     (case priority_block pareto_X pareto_F acts ''flood'' ''flood_control_priority'' [] of
        Inl e \<Rightarrow> Inl e
      | Inr r1 \<Rightarrow>
     (case priority_block pareto_X pareto_F acts ''power'' ''power_generation_priority'' r1 of
        Inl e \<Rightarrow> Inl e
      | Inr r2 \<Rightarrow>
     (case priority_block pareto_X pareto_F acts ''supply'' ''water_supply_priority'' r2 of
        Inl e \<Rightarrow> Inl e
      | Inr r3 \<Rightarrow>
     (case priority_block pareto_X pareto_F acts ''ecology'' ''ecology_priority'' r3 of
        Inl e \<Rightarrow> Inl e
      | Inr r4 \<Rightarrow> balanced_block pareto_X pareto_F acts r4))))"














section \<open>Reference directions\<close>

datatype ref_error = InvalidParameterError

text \<open>
  Modelled from the spec: the reference-direction generator. The source calls
  \<open>get_reference_directions("das-dennis", len(active_objs), n_partitions=n_ref)\<close> of the
  pymoo library, whose code is not part of the repository's files; the specification
  describes it as all compositions of \<open>num_partitions\<close> into \<open>num_objectives\<close>
  non-negative integer parts. \<open>compositions p m\<close> lists them, first part first.
\<close>

fun compositions :: "nat \<Rightarrow> nat \<Rightarrow> nat list list" where
  "compositions p 0 = (if p = 0 then [[]] else [])"
| "compositions p (Suc 0) = [[p]]"
| "compositions p (Suc (Suc m)) =
     concat (map (\<lambda>k. map ((#) k) (compositions (p - k) (Suc m))) [0..<Suc p])"

text \<open>
  Modelled from the spec: \<open>generate(num_objectives, num_partitions)\<close>, each composition
  divided by \<open>num_partitions\<close>; it signals \<open>InvalidParameterError\<close> when either
  argument is below 1. It is a function of its two arguments only.
\<close>

definition get_reference_directions :: "nat \<Rightarrow> nat \<Rightarrow> ref_error + real list list" where
  "get_reference_directions num_objectives num_partitions =
     (if num_partitions < 1 \<or> num_objectives < 1 then Inl InvalidParameterError
      else Inr (map (map (\<lambda>k. of_nat k / of_nat num_partitions))
                  (compositions num_partitions num_objectives)))"

section \<open>Per-reservoir strategy and report (strategy.py)\<close>

text \<open>
  The pymoo library is outside the repository; its two entry points used here are
  parameters of the model. \<open>minimize(problem, algorithm, ("n_gen", n_gen), seed=...)\<close>
  may raise, return \<open>None\<close>, or return a result whose \<open>pop\<close> may be \<open>None\<close> and whose
  population yields \<open>F\<close> and \<open>X\<close> (each possibly \<open>None\<close>). The algorithm object
  \<open>NSGA3(pop_size, ref_dirs)\<close> is the record of the arguments it is built from.
  \<open>fast_non_dominated_sort(F)\<close> returns the list of fronts, each a list of row indices.
\<close>

record population =
  pop_F :: "matrix option"
  pop_X :: "matrix option"

record min_result =
  res_pop :: "population option"

record nsga3 =
  alg_pop_size :: int
  ref_n_dim :: nat
  ref_n_partitions :: int

record pymoo =
  minimize :: "problem \<Rightarrow> nsga3 \<Rightarrow> int \<Rightarrow> nat \<Rightarrow> error + min_result option"
  fast_non_dominated_sort :: "matrix \<Rightarrow> nat list list"

definition get_pareto_front :: "pymoo \<Rightarrow> matrix \<Rightarrow> error + nat list" where
  "get_pareto_front env F =
     (case fast_non_dominated_sort env F of [] \<Rightarrow> Inl IndexError | front0 # _ \<Rightarrow> Inr front0)"

record solution =
  sol_solution_id :: nat
  sol_decision_variables :: vector
  sol_objective_values :: vector
  sol_objective_dict :: "(string \<times> fl) list"
  sol_analysis :: analysis

record reservoir_strategy =
  rs_reservoir_id :: nat
  pareto_solutions_count :: nat
  total_solutions :: nat
  rs_horizon :: int
  rs_objectives :: "string list"
  pareto_solutions :: "solution list"
  recommended_strategies :: "recommendation list"

definition build_solution ::
    "string list \<Rightarrow> params \<Rightarrow> nat \<times> vector \<times> vector \<Rightarrow> error + solution" where
  "build_solution acts ps entry =
     (case entry of (i, x, f) \<Rightarrow>
        (case analyze_single_solution x f acts ps of
           Inl e \<Rightarrow> Inl e
         | Inr a \<Rightarrow>
             Inr \<lparr> sol_solution_id = i + 1, sol_decision_variables = x,
                   sol_objective_values = f, sol_objective_dict = zip acts f,
                   sol_analysis = a \<rparr>))"

definition build_reservoir_strategy ::
    "pymoo \<Rightarrow> matrix \<Rightarrow> matrix \<Rightarrow> nat \<Rightarrow> string list \<Rightarrow> params \<Rightarrow> int
       \<Rightarrow> error + reservoir_strategy" where
  "build_reservoir_strategy env X F reservoir_id acts ps horizon =
     (case get_pareto_front env F of
        Inl e \<Rightarrow> Inl e
      | Inr pareto_indices \<Rightarrow>
     (case map_err (get_row X) pareto_indices of
        Inl e \<Rightarrow> Inl e
      | Inr pareto_X \<Rightarrow>
     (case map_err (get_row F) pareto_indices of
        Inl e \<Rightarrow> Inl e
      | Inr pareto_F \<Rightarrow>
     (case map_err (build_solution acts ps) (enumerate 0 (zip pareto_X pareto_F)) of
        Inl e \<Rightarrow> Inl e
      | Inr sols \<Rightarrow>
     (case recommend_strategies pareto_X pareto_F acts reservoir_id of
        Inl e \<Rightarrow> Inl e
      | Inr recs \<Rightarrow>
          Inr \<lparr> rs_reservoir_id = reservoir_id,
                pareto_solutions_count = length pareto_indices,
                total_solutions = length X,
                rs_horizon = horizon,
                rs_objectives = acts,
                pareto_solutions = sols,
                recommended_strategies = recs \<rparr>)))))"

text \<open>
  The report. The coordination analysis is the list of reservoir pairs (absent for at
  most one strategy, where the source returns a message); the guidance holds three
  constant text lists per reservoir and is modelled by the reservoir ids.
\<close>

fun reservoir_pairs :: "nat list \<Rightarrow> (nat \<times> nat) list" where
  "reservoir_pairs [] = []"
| "reservoir_pairs (a # rest) = map (\<lambda>b. (a, b)) rest @ reservoir_pairs rest"

definition analyze_cross_reservoir_coordination ::
    "reservoir_strategy list \<Rightarrow> (nat \<times> nat) list option" where
  "analyze_cross_reservoir_coordination all_strategies =
     (if length all_strategies \<le> 1 then None
      else Some (reservoir_pairs (map rs_reservoir_id all_strategies)))"

definition generate_implementation_guidance :: "reservoir_strategy list \<Rightarrow> params \<Rightarrow> nat list" where
  "generate_implementation_guidance all_strategies ps = map rs_reservoir_id all_strategies"

record report =
  total_reservoirs :: nat
  active_objectives :: "string list"
  optimization_parameters :: params
  total_pareto_solutions :: nat
  reservoir_strategies :: "reservoir_strategy list"
  cross_reservoir_analysis :: "(nat \<times> nat) list option"
  implementation_guidance :: "nat list"

definition build_comprehensive_strategy_report ::
    "reservoir_strategy list \<Rightarrow> nat \<Rightarrow> string list \<Rightarrow> params \<Rightarrow> report" where
  "build_comprehensive_strategy_report all_strategies reservoir_count acts ps =
     \<lparr> total_reservoirs = reservoir_count,
       active_objectives = acts,
       optimization_parameters = ps,
       total_pareto_solutions = sum_list (map (\<lambda>s. length (pareto_solutions s)) all_strategies),
       reservoir_strategies = all_strategies,
       cross_reservoir_analysis = analyze_cross_reservoir_coordination all_strategies,
       implementation_guidance = generate_implementation_guidance all_strategies ps \<rparr>"

section \<open>The manager (schedule_manager.py)\<close>

text \<open>
  A data frame: column names, rows of cells, and the attached \<open>schedule_strategy\<close>
  attribute. \<open>pd.DataFrame(F, columns=...)\<close> raises \<open>ValueError\<close> when the number of
  names differs from the width of \<open>F\<close>; \<open>df[name] = values\<close> replaces the column of
  that name or appends a new one.
\<close>

datatype cell = CFloat fl | CInt int

record dataframe =
  columns :: "string list"
  rows :: "cell list list"
  attrs :: "report option"

definition new_frame :: "matrix \<Rightarrow> string list \<Rightarrow> error + dataframe" where
  "new_frame F names =
     (if \<forall>row\<in>set F. length row = length names
      then Inr \<lparr> columns = names, rows = map (map CFloat) F, attrs = None \<rparr>
      else Inl ValueError)"

definition set_column :: "dataframe \<Rightarrow> string \<Rightarrow> cell list \<Rightarrow> dataframe" where
  "set_column df name vals =
     (case list_index (columns df) name of
        Inr j \<Rightarrow> df\<lparr> rows := map (\<lambda>(row, v). row[j := v]) (zip (rows df) vals) \<rparr>
      | Inl _ \<Rightarrow> df\<lparr> columns := columns df @ [name],
                     rows := map (\<lambda>(row, v). row @ [v]) (zip (rows df) vals) \<rparr>)"

definition reservoir_frame :: "matrix \<Rightarrow> string list \<Rightarrow> nat \<Rightarrow> error + dataframe" where
  "reservoir_frame F acts reservoir_id =
     (case new_frame F acts of
        Inl e \<Rightarrow> Inl e
      | Inr df \<Rightarrow>
          (let df1 = set_column df ''reservoir_id''
                       (replicate (length (rows df)) (CInt (int reservoir_id)));
               df2 = set_column df1 ''time_step''
                       (map (\<lambda>i. CInt (int i)) [0..<length (rows df1)])
           in Inr df2))"

text \<open>\<open>pd.concat(frames, ignore_index=True)\<close> of frames with the same columns.\<close>

fun pd_concat :: "dataframe list \<Rightarrow> error + dataframe" where
  "pd_concat [] = Inl ValueError"
| "pd_concat (df # dfs) =
     Inr \<lparr> columns = columns df, rows = concat (map rows (df # dfs)), attrs = None \<rparr>"

datatype log_entry =
    LogNoObjectives
  | LogDetected nat
  | LogStart nat
  | LogDone nat
  | LogFailed nat
  | LogFinished nat
  | LogReportGenerated
  | LogAllFailed

record run_config =
  cfg_active_objs :: "string list"
  cfg_pop_size :: int
  cfg_n_gen :: int
  cfg_n_ref :: int
  cfg_horizon :: int
  cfg_Q_min :: fl
  cfg_Q_max :: fl
  cfg_params :: params

record manager =
  results :: "dataframe option"

record loop_state =
  all_results :: "dataframe list"
  all_strategies :: "reservoir_strategy list"
  printed :: "log_entry list"

text \<open>
  Steps 1 and 2 of \<open>optimize\<close>: the enabled objective names in the order of the
  dictionary, and the numeric settings with their defaults. \<open>objectives\<close> is the
  dictionary as its list of items.
\<close>

definition active_of :: "(string \<times> bool) list \<Rightarrow> string list" where
  "active_of objectives = map fst (filter snd objectives)"

definition config_of :: "(string \<times> bool) list \<Rightarrow> params \<Rightarrow> error + run_config" where
  "config_of objectives ps =
     (case get_int ps ''population_size'' 100 of
        Inl e \<Rightarrow> Inl e
      | Inr pop_size \<Rightarrow>
     (case get_int ps ''iterations'' 100 of
        Inl e \<Rightarrow> Inl e
      | Inr n_gen \<Rightarrow>
     (case get_int ps ''reference_points'' 12 of
        Inl e \<Rightarrow> Inl e
      | Inr n_ref \<Rightarrow>
     (case get_int ps ''horizon'' 24 of
        Inl e \<Rightarrow> Inl e
      | Inr horizon \<Rightarrow>
          Inr \<lparr> cfg_active_objs = active_of objectives,
                cfg_pop_size = pop_size, cfg_n_gen = n_gen, cfg_n_ref = n_ref,
                cfg_horizon = horizon,
                cfg_Q_min = get_float ps ''Q_min'' (Fin 0),
                cfg_Q_max = get_float ps ''Q_max'' (Fin 1000),
                cfg_params = ps \<rparr>))))"

text \<open>
  Step 3: the number of reservoirs, from
  \<open>if data and isinstance(data, dict) and 'model_results' in data\<close>. \<open>data\<close> is
  \<open>None\<close>; a value whose truth value is ambiguous (a data frame or an array, for which
  \<open>if data\<close> raises \<open>ValueError\<close>); some other value that is not a dictionary; or a
  dictionary. Of a dictionary entry only its length matters: \<open>Some n\<close> when \<open>len\<close>
  gives \<open>n\<close>, \<open>None\<close> when the entry has no length (such as the value \<open>None\<close>), for which
  \<open>len\<close> raises \<open>TypeError\<close>.
\<close>

datatype data_arg =
    DataNone
  | DataAmbiguous
  | DataOther
  | DataDict "string \<rightharpoonup> nat option"

fun reservoir_count_of :: "data_arg \<Rightarrow> error + nat" where
  "reservoir_count_of DataNone = Inr 1"
| "reservoir_count_of DataAmbiguous = Inl ValueError"
| "reservoir_count_of DataOther = Inr 1"
| "reservoir_count_of (DataDict d) =
     (case d ''model_results'' of
        None \<Rightarrow> Inr 1
      | Some None \<Rightarrow> Inl TypeError
      | Some (Some n) \<Rightarrow> Inr n)"

fun detected_log :: "data_arg \<Rightarrow> log_entry list" where
  "detected_log (DataDict d) =
     (case d ''model_results'' of Some (Some n) \<Rightarrow> [LogDetected n] | _ \<Rightarrow> [])"
| "detected_log _ = []"

text \<open>
  Step 4, the body of the loop for one reservoir id: the problem and the algorithm are
  built, \<open>minimize\<close> runs with the id as seed, and a usable population becomes a frame
  and a strategy; \<open>None\<close> is the branch that prints the failure.
\<close>

definition reservoir_step ::
    "pymoo \<Rightarrow> run_config \<Rightarrow> nat \<Rightarrow> error + (dataframe \<times> reservoir_strategy) option" where
  "reservoir_step env cfg reservoir_id =
     (let problem = init_problem (cfg_horizon cfg) (cfg_active_objs cfg)
                      (cfg_Q_min cfg) (cfg_Q_max cfg) (cfg_params cfg);
          algorithm = \<lparr> alg_pop_size = cfg_pop_size cfg,
                        ref_n_dim = length (cfg_active_objs cfg),
                        ref_n_partitions = cfg_n_ref cfg \<rparr>
      in case minimize env problem algorithm (cfg_n_gen cfg) reservoir_id of
           Inl e \<Rightarrow> Inl e
         | Inr None \<Rightarrow> Inr None
         | Inr (Some res) \<Rightarrow>
            (case res_pop res of
               None \<Rightarrow> Inr None
             | Some pop \<Rightarrow>
                (case pop_F pop of
                   None \<Rightarrow> Inr None
                 | Some F \<Rightarrow>
                    (case pop_X pop of
                       None \<Rightarrow> Inr None
                     | Some X \<Rightarrow>
                        (case reservoir_frame F (cfg_active_objs cfg) reservoir_id of
                           Inl e \<Rightarrow> Inl e
                         | Inr df \<Rightarrow>
                            (case build_reservoir_strategy env X F reservoir_id
                                    (cfg_active_objs cfg) (cfg_params cfg) (cfg_horizon cfg) of
                               Inl e \<Rightarrow> Inl e
                             | Inr strategy_info \<Rightarrow> Inr (Some (df, strategy_info))))))))"

fun optimize_loop :: "pymoo \<Rightarrow> run_config \<Rightarrow> nat list \<Rightarrow> loop_state \<Rightarrow> error + loop_state" where
  "optimize_loop env cfg [] st = Inr st"
| "optimize_loop env cfg (reservoir_id # rest) st =
     (case reservoir_step env cfg reservoir_id of
        Inl e \<Rightarrow> Inl e
      | Inr None \<Rightarrow>
          optimize_loop env cfg rest
            (st\<lparr> printed := printed st @ [LogStart reservoir_id, LogFailed reservoir_id] \<rparr>)
      | Inr (Some (df, strategy_info)) \<Rightarrow>
          optimize_loop env cfg rest
            \<lparr> all_results = all_results st @ [df],
              all_strategies = all_strategies st @ [strategy_info],
              printed = printed st @ [LogStart reservoir_id, LogDone reservoir_id] \<rparr>)"

text \<open>
  \<open>ScheduleManager.optimize\<close>: the outcome (an exception, or the returned value with
  the lines printed) and the manager after the call. Lines printed before an exception
  are not recorded.
\<close>

definition optimize ::
    "pymoo \<Rightarrow> data_arg \<Rightarrow> (string \<times> bool) list \<Rightarrow> params \<Rightarrow> manager
       \<Rightarrow> (error + dataframe option \<times> log_entry list) \<times> manager" where
  "optimize env data objectives ps self =
     (if active_of objectives = [] then (Inr (None, [LogNoObjectives]), self)
      else
        (case config_of objectives ps of
           Inl e \<Rightarrow> (Inl e, self)
         | Inr cfg \<Rightarrow>
            (case reservoir_count_of data of
               Inl e \<Rightarrow> (Inl e, self)
             | Inr reservoir_count \<Rightarrow>
            (case optimize_loop env cfg [1..<reservoir_count + 1]
                    \<lparr> all_results = [], all_strategies = [], printed = detected_log data \<rparr> of
               Inl e \<Rightarrow> (Inl e, self)
             | Inr st \<Rightarrow>
                (if all_results st \<noteq> [] then
                   (case pd_concat (all_results st) of
                      Inl e \<Rightarrow> (Inl e, self)
                    | Inr combined_df \<Rightarrow>
                       (let strategy_report =
                              build_comprehensive_strategy_report (all_strategies st)
                                reservoir_count (cfg_active_objs cfg) ps;
                            df = combined_df\<lparr> attrs := Some strategy_report \<rparr>
                        in (Inr (Some df,
                                 printed st @ [LogFinished (length (all_results st)),
                                               LogReportGenerated]),
                            self\<lparr> results := Some df \<rparr>)))
                 else (Inr (None, printed st @ [LogAllFailed]), self))))))"

text \<open>
  Dominance as the specification words it: \<open>a\<close> is no worse in every objective and
  strictly better in one.
\<close>

definition dominates :: "vector \<Rightarrow> vector \<Rightarrow> bool" where
  "dominates a b = (list_all2 fle a b \<and> list_ex (\<lambda>(x, y). flt x y) (zip a b))"

text \<open>
  The successful reservoirs of a run, in loop order, with their frames; and the rows a
  reservoir contributes to the table: every row of its final population's \<open>F\<close>,
  followed by the reservoir id and the row's position.
\<close>

definition successes :: "pymoo \<Rightarrow> run_config \<Rightarrow> nat list \<Rightarrow> (dataframe \<times> reservoir_strategy) list" where
  "successes env cfg rids =
     concat (map (\<lambda>rid. case reservoir_step env cfg rid of Inr (Some p) \<Rightarrow> [p] | _ \<Rightarrow> []) rids)"

definition population_rows :: "matrix \<Rightarrow> nat \<Rightarrow> cell list list" where
  "population_rows F reservoir_id =
     map (\<lambda>(i, row). map CFloat row @ [CInt (int reservoir_id), CInt (int i)]) (enumerate 0 F)"

text \<open>The objective part and the reservoir id of a table row with \<open>m\<close> objectives.\<close>

fun cell_value :: "cell \<Rightarrow> fl" where
  "cell_value (CFloat v) = v"
| "cell_value (CInt i) = Fin (of_int i)"

definition row_objectives :: "nat \<Rightarrow> cell list \<Rightarrow> vector" where
  "row_objectives m row = map cell_value (take m row)"

definition table_of :: "(error + dataframe option \<times> log_entry list) \<times> manager \<Rightarrow> cell list list" where
  "table_of out = (case fst out of Inr (Some df, _) \<Rightarrow> rows df | _ \<Rightarrow> [])"

text \<open>
  The property of claim C3 for a table with \<open>m\<close> objective columns: no row is dominated
  by a row of the same reservoir.
\<close>

definition pareto_rows_only :: "nat \<Rightarrow> cell list list \<Rightarrow> bool" where
  "pareto_rows_only m tbl =
     (\<forall>r\<in>set tbl. \<forall>r'\<in>set tbl.
        r' ! m = r ! m \<longrightarrow> \<not> dominates (row_objectives m r') (row_objectives m r))"

text \<open>
  The two lines one pass of the loop prints: the start line, then success or failure.
\<close>

definition step_lines :: "pymoo \<Rightarrow> run_config \<Rightarrow> nat \<Rightarrow> log_entry list" where
  "step_lines env cfg rid =
     [LogStart rid, (case reservoir_step env cfg rid of Inr None \<Rightarrow> LogFailed rid | _ \<Rightarrow> LogDone rid)]"

text \<open>
  The problem and the algorithm the loop body builds: functions of the settings alone,
  not of the reservoir id.
\<close>

definition problem_of :: "run_config \<Rightarrow> problem" where
  "problem_of cfg =
     init_problem (cfg_horizon cfg) (cfg_active_objs cfg) (cfg_Q_min cfg) (cfg_Q_max cfg)
       (cfg_params cfg)"

definition algorithm_of :: "run_config \<Rightarrow> nsga3" where
  "algorithm_of cfg =
     \<lparr> alg_pop_size = cfg_pop_size cfg, ref_n_dim = length (cfg_active_objs cfg),
       ref_n_partitions = cfg_n_ref cfg \<rparr>"

text \<open>
  The objective matrix \<open>F\<close> of the population \<open>minimize\<close> returns for a reservoir,
  when the loop accepts it (result, population, \<open>F\<close> and \<open>X\<close> all present).
\<close>

definition final_population :: "pymoo \<Rightarrow> run_config \<Rightarrow> nat \<Rightarrow> matrix option" where
  "final_population env cfg rid =
     (case minimize env (problem_of cfg) (algorithm_of cfg) (cfg_n_gen cfg) rid of
        Inr (Some res) \<Rightarrow>
          (case res_pop res of
             None \<Rightarrow> None
           | Some pop \<Rightarrow> (case pop_X pop of None \<Rightarrow> None | Some X \<Rightarrow> pop_F pop))
      | _ \<Rightarrow> None)"

text \<open>
  A reservoir's frame and strategy with the reservoir id replaced.
\<close>

definition relabel :: "nat \<Rightarrow> dataframe \<times> reservoir_strategy \<Rightarrow> dataframe \<times> reservoir_strategy" where
  "relabel rid p =
     (set_column (fst p) ''reservoir_id'' (replicate (length (rows (fst p))) (CInt (int rid))),
      (snd p)\<lparr> rs_reservoir_id := rid \<rparr>)"

section \<open>A concrete run\<close>

text \<open>
  A concrete run used to evaluate the model: an optimizer whose final population is the
  two one-step schedules 500 and 600, with the objective values \<open>_evaluate\<close> gives them.
  It yields no result for seed 2. Row 1 is dominated by row 0, as its fronts say.
\<close>

definition example_X :: matrix where
  "example_X = [[Fin 500], [Fin 600]]"

definition example_env :: pymoo where
  "example_env =
     \<lparr> minimize = (\<lambda>problem algorithm n_gen seed.
          if seed = 2 then Inr None
          else (case evaluate problem example_X of
                  Inl e \<Rightarrow> Inl e
                | Inr F \<Rightarrow> Inr (Some \<lparr> res_pop = Some \<lparr> pop_F = Some F, pop_X = Some example_X \<rparr> \<rparr>))),
       fast_non_dominated_sort = (\<lambda>F. [[0], [1]]) \<rparr>"

definition example_objectives :: "(string \<times> bool) list" where
  "example_objectives = [(''flood'', True), (''power'', False), (''supply'', True), (''ecology'', False)]"

definition example_params :: params where
  "example_params = [''horizon'' \<mapsto> PInt 1]"

definition example_cfg :: run_config where
  "example_cfg =
     \<lparr> cfg_active_objs = [''flood'', ''supply''], cfg_pop_size = 100, cfg_n_gen = 100,
       cfg_n_ref = 12, cfg_horizon = 1, cfg_Q_min = Fin 0, cfg_Q_max = Fin 1000,
       cfg_params = example_params \<rparr>"

definition example_F :: matrix where
  "example_F = [[Fin (1 / 2), Fin 0], [Fin (3 / 5), Fin 0]]"

text \<open>
  Three reservoirs; an optimizer that never yields a result; a frame stored by an
  earlier run.
\<close>

definition example_data :: data_arg where
  "example_data = DataDict [''model_results'' \<mapsto> Some 3]"

definition failing_env :: pymoo where
  "failing_env = example_env\<lparr> minimize := (\<lambda>problem algorithm n_gen seed. Inr None) \<rparr>"

definition example_frame_table :: dataframe where
  "example_frame_table =
     \<lparr> columns = [''flood''], rows = [[CFloat (Fin 1)]], attrs = None \<rparr>"

text \<open>
  Two optimizers that raise, as the library does: one refuses bounds with
  \<open>Q_min > Q_max\<close> by a failed assertion, the other yields the example population for
  every seed but 2, where it raises. The parameters with the crossed bounds, and the
  settings \<open>optimize\<close> reads from them.
\<close>

definition strict_env :: pymoo where
  "strict_env =
     example_env\<lparr> minimize := (\<lambda>problem algorithm n_gen seed.
       if flt (Q_max problem) (Q_min problem) then Inl AssertionError
       else minimize example_env problem algorithm n_gen seed) \<rparr>"

definition flaky_env :: pymoo where
  "flaky_env =
     example_env\<lparr> minimize := (\<lambda>problem algorithm n_gen seed.
       if seed = 2 then Inl ValueError
       else minimize example_env problem algorithm n_gen seed) \<rparr>"

definition crossed_params :: params where
  "crossed_params = [''horizon'' \<mapsto> PInt 1, ''Q_min'' \<mapsto> PInt 10, ''Q_max'' \<mapsto> PInt 5]"

definition crossed_cfg :: run_config where
  "crossed_cfg =
     example_cfg\<lparr> cfg_Q_min := Fin 10, cfg_Q_max := Fin 5, cfg_params := crossed_params \<rparr>"




section \<open>Objective evaluation\<close>

lemma foldl_fmaximum_Fin: "foldl fmaximum (Fin a) (map Fin xs) = Fin (foldl max a xs)"
  by (induction xs arbitrary: a) simp_all

lemma foldl_max_Max: "foldl max (a::real) xs = Max (set (a # xs))"
proof -
  have "foldl max a xs = fold max xs a"
    by (simp add: foldl_conv_fold max.commute)
  then show ?thesis by (simp only: Max.set_eq_fold)
qed

lemma np_max_Fin: "xs \<noteq> [] \<Longrightarrow> np_max (map Fin xs) = Inr (Fin (Max (set xs)))"
  by (cases xs) (simp_all only: list.map np_max.simps foldl_fmaximum_Fin foldl_max_Max, simp)

lemma foldl_fadd_Fin: "foldl fadd (Fin a) (map Fin ys) = Fin (a + sum_list ys)"
  by (induction ys arbitrary: a) (simp_all add: add.assoc)

lemma np_sum_Fin: "np_sum (map Fin ys) = Fin (sum_list ys)"
  by (simp add: np_sum_def foldl_fadd_Fin)

lemma np_sum_map_Fin: "np_sum (map (\<lambda>x. Fin (g x)) ys) = Fin (\<Sum>x\<leftarrow>ys. g x)"
  using np_sum_Fin [of "map g ys"] by (simp add: comp_def)

lemma map_err_map_Inr:
  "(\<And>x. x \<in> set xs \<Longrightarrow> f (h x) = Inr (g x)) \<Longrightarrow> map_err f (map h xs) = Inr (map g xs)"
  by (induction xs) simp_all

lemma flood_column_Fin:
  assumes "n_var P \<noteq> 0" "\<forall>xs\<in>set Xr. xs \<noteq> []" "Q_allowed P = Fin qa"
  shows "flood_column P (map (map Fin) Xr) = Inr (map (spec_flood qa) Xr)"
proof -
  have "map_err np_max (map (map Fin) Xr) = Inr (map (\<lambda>xs. Fin (Max (set xs))) Xr)"
    using assms(2) by (intro map_err_map_Inr) (simp add: np_max_Fin)
  then show ?thesis
    using assms by (simp add: flood_column_def np_max_axis1_def spec_flood_def comp_def)
qed

lemma power_column_Fin:
  assumes "Head P = Fin h"
  shows "power_column P (map (map Fin) Xr) = map (spec_power h) Xr"
  using assms
  by (simp add: power_column_def spec_power_def comp_def np_sum_map_Fin)

lemma supply_column_Fin:
  assumes "Q_target P = Fin qt"
  shows "supply_column P (map (map Fin) Xr) = map (spec_supply qt (n_var P)) Xr"
  using assms
  by (simp add: supply_column_def spec_supply_def comp_def fsub_def np_sum_map_Fin)

lemma count_true_map: "count_true (map p xs) = length (filter p xs)"
  by (induction xs) (simp_all add: count_true_def)

lemma ecology_column_Fin:
  assumes "Q_eco P = Fin qe"
  shows "ecology_column P (map (map Fin) Xr) = map (spec_ecology qe (n_var P)) Xr"
  using assms
  by (simp add: ecology_column_def spec_ecology_def comp_def count_true_map)

lemma length_set_col: "length col = length F \<Longrightarrow> length (set_col F i col) = length F"
  by (simp add: set_col_def)

lemma nth_set_col:
  "length col = length F \<Longrightarrow> r < length F \<Longrightarrow> set_col F i col ! r = (F ! r)[i := col ! r]"
  by (simp add: set_col_def)

lemma evaluate_loop_Cons:
  "evaluate_loop P X ((i, obj) # rest) F =
     (case objective_column P X obj of
        Inl e \<Rightarrow> Inl e
      | Inr col \<Rightarrow> evaluate_loop P X rest (set_col F i col))"
  by (simp add: objective_column_def)

lemma fold_update_enumerate:
  "length row = k + length objs \<Longrightarrow>
   fold (\<lambda>q row. row[fst q := h (snd q)]) (enumerate k objs) row = take k row @ map h objs"
proof (induction objs arbitrary: k row)
  case Nil
  then show ?case by simp
next
  case (Cons obj objs)
  have "k < length row" using Cons.prems by simp
  then have "take (Suc k) (row[k := h obj]) = take k row @ [h obj]"
    by (simp add: take_Suc_conv_app_nth)
  moreover have "length (row[k := h obj]) = Suc k + length objs"
    using Cons.prems by simp
  ultimately show ?case
    using Cons.IH [of "row[k := h obj]" "Suc k"] by simp
qed

lemma fold_update_enumerate0:
  "length row = length objs \<Longrightarrow>
   fold (\<lambda>q row. row[fst q := h (snd q)]) (enumerate 0 objs) row = map h objs"
  using fold_update_enumerate [of row 0 objs h] by simp

lemma evaluate_loop_rows:
  assumes "\<forall>obj\<in>set objs. objective_column P X obj = Inr (map (g obj) Xr)"
    and "length F = length Xr"
  shows "evaluate_loop P X (enumerate k objs) F =
           Inr (map (\<lambda>p. fold (\<lambda>q row. row[fst q := g (snd q) (snd p)]) (enumerate k objs) (fst p))
                  (zip F Xr))"
  using assms
proof (induction objs arbitrary: k F)
  case Nil
  then show ?case by simp
next
  case (Cons obj objs)
  have col: "objective_column P X obj = Inr (map (g obj) Xr)"
    using Cons.prems(1) by simp
  have len: "length (set_col F k (map (g obj) Xr)) = length Xr"
    using Cons.prems(2) by (simp add: length_set_col)
  have rows: "zip (set_col F k (map (g obj) Xr)) Xr = map (\<lambda>p. ((fst p)[k := g obj (snd p)], snd p)) (zip F Xr)"
    using Cons.prems(2)
    by (intro nth_equalityI) (simp_all add: set_col_def)
  show ?case
    using Cons.IH [of "set_col F k (map (g obj) Xr)" "Suc k"] Cons.prems(1) len
    by (simp only: enumerate_simps evaluate_loop_Cons col sum.case rows map_map)
       (simp add: comp_def)
qed


lemma evaluate_closed_form:
  assumes "\<forall>obj\<in>set (active_objs P). objective_column P X obj = Inr (map (g obj) Xr)"
    and "length X = length Xr"
  shows "evaluate P X = Inr (map (\<lambda>xs. map (\<lambda>obj. g obj xs) (active_objs P)) Xr)"
proof -
  let ?m = "length (active_objs P)"
  have "evaluate P X =
          Inr (map (\<lambda>p. fold (\<lambda>q row. row[fst q := g (snd q) (snd p)]) (enumerate 0 (active_objs P)) (fst p))
                  (zip (np_zeros (length X) ?m) Xr))"
    unfolding evaluate_def using assms by (intro evaluate_loop_rows) (simp_all add: np_zeros_def)
  also have "map (\<lambda>p. fold (\<lambda>q row. row[fst q := g (snd q) (snd p)]) (enumerate 0 (active_objs P)) (fst p))
                  (zip (np_zeros (length X) ?m) Xr) = map (\<lambda>xs. map (\<lambda>obj. g obj xs) (active_objs P)) Xr"
  proof -
    have "fold (\<lambda>q row. row[fst q := g (snd q) xs]) (enumerate 0 (active_objs P))
            (replicate ?m (Fin 0)) = map (\<lambda>obj. g obj xs) (active_objs P)" for xs
      using fold_update_enumerate0 [of "replicate ?m (Fin 0)" "active_objs P" "\<lambda>obj. g obj xs"]
      by simp
    then show ?thesis
      using assms(2) by (intro nth_equalityI) (simp_all add: np_zeros_def)
  qed
  finally show ?thesis .
qed

lemma map_err_np_max_error: "map_err np_max X = Inl e \<Longrightarrow> e = ValueError"
proof (induction X)
  case Nil
  then show ?case by simp
next
  case (Cons row X)
  then show ?case by (cases row) (auto split: sum.splits)
qed

lemma objective_column_error: "objective_column P X obj = Inl e \<Longrightarrow> e = ValueError"
  by (auto simp: objective_column_def flood_column_def np_max_axis1_def
      split: if_splits sum.splits dest: map_err_np_max_error)

lemma evaluate_loop_unknown_ValueError:
  "\<exists>p\<in>set es. snd p \<notin> set known_objs \<Longrightarrow> evaluate_loop P X es F = Inl ValueError"
proof (induction es arbitrary: F)
  case Nil
  then show ?case by simp
next
  case (Cons p es)
  obtain i obj where p: "p = (i, obj)" by (cases p)
  show ?case
  proof (cases "obj \<in> set known_objs")
    case False
    then show ?thesis by (simp add: p known_objs_def)
  next
    case True
    then have "\<exists>q\<in>set es. snd q \<notin> set known_objs" using Cons.prems p by auto
    then have "\<And>F'. evaluate_loop P X es F' = Inl ValueError" using Cons.IH by blast
    then show ?thesis
      unfolding p evaluate_loop_Cons
      by (auto split: sum.splits dest: objective_column_error)
  qed
qed

lemma evaluate_unknown:
  assumes "\<not> set (active_objs P) \<subseteq> set known_objs"
  shows "evaluate P X = Inl ValueError"
proof -
  from assms obtain obj where "obj \<in> set (active_objs P)" "obj \<notin> set known_objs" by auto
  then obtain i where "i < length (active_objs P)" "active_objs P ! i = obj"
    by (auto simp: in_set_conv_nth)
  then have "(i, obj) \<in> set (enumerate 0 (active_objs P))"
    by (simp add: in_set_enumerate_eq)
  with \<open>obj \<notin> set known_objs\<close> have "\<exists>p\<in>set (enumerate 0 (active_objs P)). snd p \<notin> set known_objs"
    by force
  then show ?thesis unfolding evaluate_def by (rule evaluate_loop_unknown_ValueError)
qed

lemma objective_column_Fin:
  assumes "obj \<in> set known_objs"
    and "obj = ''flood'' \<longrightarrow> n_var P \<noteq> 0"
    and "\<forall>xs\<in>set Xr. int (length xs) = n_var P"
    and "Q_allowed P = Fin qa" "Q_target P = Fin qt" "Q_eco P = Fin qe" "Head P = Fin h"
  shows "objective_column P (map (map Fin) Xr) obj =
           Inr (map (spec_objective qa qt qe h (n_var P) obj) Xr)"
proof -
  consider "obj = ''flood''" | "obj = ''power''" | "obj = ''supply''" | "obj = ''ecology''"
    using assms(1) by (auto simp: known_objs_def)
  then show ?thesis
  proof cases
    case 1
    then have "n_var P \<noteq> 0" using assms(2) by simp
    moreover from this have "\<forall>xs\<in>set Xr. xs \<noteq> []" using assms(3) by auto
    ultimately show ?thesis
      using 1 assms(4) by (simp add: objective_column_def spec_objective_def flood_column_Fin)
  next
    case 2
    then show ?thesis
      using assms(7) by (simp add: objective_column_def spec_objective_def power_column_Fin)
  next
    case 3
    then show ?thesis
      using assms(5) by (simp add: objective_column_def spec_objective_def supply_column_Fin)
  next
    case 4
    then show ?thesis
      using assms(6) by (simp add: objective_column_def spec_objective_def ecology_column_Fin)
  qed
qed

lemma evaluate_Fin:
  assumes "set (active_objs P) \<subseteq> set known_objs"
    and "''flood'' \<in> set (active_objs P) \<longrightarrow> n_var P \<noteq> 0"
    and "\<forall>xs\<in>set Xr. int (length xs) = n_var P"
    and "Q_allowed P = Fin qa" "Q_target P = Fin qt" "Q_eco P = Fin qe" "Head P = Fin h"
  shows "evaluate P (map (map Fin) Xr) =
           Inr (map (\<lambda>xs. map (\<lambda>obj. spec_objective qa qt qe h (n_var P) obj xs) (active_objs P)) Xr)"
proof (rule evaluate_closed_form)
  show "\<forall>obj\<in>set (active_objs P).
          objective_column P (map (map Fin) Xr) obj =
            Inr (map (spec_objective qa qt qe h (n_var P) obj) Xr)"
  proof
    fix obj assume "obj \<in> set (active_objs P)"
    then show "objective_column P (map (map Fin) Xr) obj =
            Inr (map (spec_objective qa qt qe h (n_var P) obj) Xr)"
      using assms by (intro objective_column_Fin) auto
  qed
  show "length (map (map Fin) Xr) = length Xr" by simp
qed

text \<open>
  Claim C1. For a batch of real decision vectors of the problem's horizon (at least one
  step) and real parameters, \<open>evaluate\<close> returns the matrix whose row for each decision
  vector holds, in the order of the active objectives, flood = max(x)/Q_allowed,
  power = -sum(x*head), supply = sum(max(Q_target - x, 0))/(Q_target*horizon) and
  ecology = count(x < Q_eco)/horizon. With an objective name outside the four, evaluation
  raises \<open>ValueError\<close> for every batch and returns nothing.
\<close>

theorem evaluate_matches_formulas:
  "(set (active_objs P) \<subseteq> set known_objs \<longrightarrow> 0 < n_var P \<longrightarrow>
      (\<forall>xs\<in>set Xr. int (length xs) = n_var P) \<longrightarrow>
      Q_allowed P = Fin qa \<longrightarrow> Q_target P = Fin qt \<longrightarrow> Q_eco P = Fin qe \<longrightarrow> Head P = Fin h \<longrightarrow>
      evaluate P (map (map Fin) Xr) =
        Inr (map (\<lambda>xs. map (\<lambda>obj. spec_objective qa qt qe h (n_var P) obj xs) (active_objs P)) Xr))
   \<and> (\<not> set (active_objs P) \<subseteq> set known_objs \<longrightarrow> evaluate P X = Inl ValueError)"
  using evaluate_Fin [of P Xr qa qt qe h] evaluate_unknown [of P X] by simp

theorem evaluate_matches_formulas_witness:
  "evaluate (init_problem 2 [''supply'', ''flood'', ''ecology'', ''power''] (Fin 0) (Fin 10) Map.empty)
      [[Fin 1, Fin 8], [Fin 6, Fin 4]]
     = Inr [[Fin (2 / 5), Fin (4 / 5), Fin 0, Fin (- 450)],
            [Fin (1 / 10), Fin (3 / 5), Fin 0, Fin (- 500)]]
   \<and> evaluate (init_problem 2 [''flood'', ''profit''] (Fin 0) (Fin 10) Map.empty)
        [[Fin 1, Fin 8], [Fin 6, Fin 4]] = Inl ValueError"
  using evaluate_matches_formulas
          [of "init_problem 2 [''supply'', ''flood'', ''ecology'', ''power''] (Fin 0) (Fin 10) Map.empty"
              "[[1, 8], [6, 4]]" 10 5 0 50]
        evaluate_matches_formulas
          [of "init_problem 2 [''flood'', ''profit''] (Fin 0) (Fin 10) Map.empty"
              "[]" 10 5 0 50 "[[Fin 1, Fin 8], [Fin 6, Fin 4]]"]
  by (simp add: init_problem_def get_float_def known_objs_def spec_objective_def
      spec_flood_def spec_power_def spec_supply_def spec_ecology_def)

section \<open>Unguarded divisions\<close>

lemma is_finite_spec_flood: "is_finite (spec_flood qa xs) \<longleftrightarrow> qa \<noteq> 0"
  by (simp add: spec_flood_def)

lemma is_finite_spec_supply: "is_finite (spec_supply qt n xs) \<longleftrightarrow> qt \<noteq> 0 \<and> n \<noteq> 0"
  by (simp add: spec_supply_def)

lemma default_Q_target_zero:
  "Q_target (init_problem nv acts (Fin a) (Fin (- a)) Map.empty) = Fin 0"
  by (simp add: init_problem_def get_float_def)

text \<open>
  Claim C8. The divisions of the objective evaluation are unguarded. For a finite batch
  and finite parameters \<open>evaluate\<close> returns a matrix (it raises nothing), and a flood
  value is finite exactly when Q_allowed is not zero, a supply value exactly when Q_target
  is not zero and the horizon is at least 1. Q_target = 0 is reached through the default
  (Q_min + Q_max)/2 whenever Q_max = -Q_min; the supply value is then \<open>nan\<close> or \<open>inf\<close>.
\<close>

theorem evaluate_finite_iff_divisors_nonzero:
  assumes "set (active_objs P) \<subseteq> set known_objs"
    and "''flood'' \<in> set (active_objs P) \<longrightarrow> n_var P \<noteq> 0"
    and "\<forall>xs\<in>set Xr. int (length xs) = n_var P"
    and "Q_allowed P = Fin qa" "Q_target P = Fin qt" "Q_eco P = Fin qe" "Head P = Fin h"
  shows "(\<exists>F. evaluate P (map (map Fin) Xr) = Inr F \<and> length F = length Xr \<and>
            (\<forall>r<length Xr. \<forall>i<length (active_objs P).
               (active_objs P ! i = ''flood'' \<longrightarrow> (is_finite (F ! r ! i) \<longleftrightarrow> qa \<noteq> 0)) \<and>
               (active_objs P ! i = ''supply'' \<longrightarrow>
                  (is_finite (F ! r ! i) \<longleftrightarrow> qt \<noteq> 0 \<and> 1 \<le> n_var P))))
         \<and> Q_target (init_problem nv acts (Fin a) (Fin (- a)) Map.empty) = Fin 0"
proof -
  let ?F = "map (\<lambda>xs. map (\<lambda>obj. spec_objective qa qt qe h (n_var P) obj xs) (active_objs P)) Xr"
  have ev: "evaluate P (map (map Fin) Xr) = Inr ?F"
    using assms by (rule evaluate_Fin)
  have nonneg: "0 \<le> n_var P \<or> Xr = []"
    using assms(3) by (cases Xr) auto
  have "\<forall>r<length Xr. \<forall>i<length (active_objs P).
          (active_objs P ! i = ''flood'' \<longrightarrow> (is_finite (?F ! r ! i) \<longleftrightarrow> qa \<noteq> 0)) \<and>
          (active_objs P ! i = ''supply'' \<longrightarrow>
             (is_finite (?F ! r ! i) \<longleftrightarrow> qt \<noteq> 0 \<and> 1 \<le> n_var P))"
  proof (intro allI impI)
    fix r i assume r: "r < length Xr" and i: "i < length (active_objs P)"
    have "0 \<le> n_var P" using nonneg r by auto
    then have n: "n_var P \<noteq> 0 \<longleftrightarrow> 1 \<le> n_var P" by linarith
    show "(active_objs P ! i = ''flood'' \<longrightarrow> (is_finite (?F ! r ! i) \<longleftrightarrow> qa \<noteq> 0)) \<and>
          (active_objs P ! i = ''supply'' \<longrightarrow>
             (is_finite (?F ! r ! i) \<longleftrightarrow> qt \<noteq> 0 \<and> 1 \<le> n_var P))"
      using r i n
      by (simp add: spec_objective_def is_finite_spec_flood is_finite_spec_supply)
  qed
  with ev show ?thesis
    by (simp add: default_Q_target_zero)
qed

theorem evaluate_finite_iff_divisors_nonzero_witness:
  "\<exists>F. evaluate (init_problem 2 [''supply'', ''flood'', ''power''] (Fin 0) (Fin 0) Map.empty)
          [[Fin 0, Fin 0], [Fin (- 1), Fin 3]] = Inr F
       \<and> length F = 2
       \<and> \<not> is_finite (F ! 0 ! 0) \<and> \<not> is_finite (F ! 0 ! 1)
       \<and> \<not> is_finite (F ! 1 ! 0) \<and> \<not> is_finite (F ! 1 ! 1)"
proof -
  let ?P = "init_problem 2 [''supply'', ''flood'', ''power''] (Fin 0) (Fin 0) Map.empty"
  have "set (active_objs ?P) \<subseteq> set known_objs"
    by (simp add: init_problem_def known_objs_def)
  moreover have "''flood'' \<in> set (active_objs ?P) \<longrightarrow> n_var ?P \<noteq> 0"
    by (simp add: init_problem_def)
  moreover have "\<forall>xs\<in>set [[0, 0], [- 1, 3::real]]. int (length xs) = n_var ?P"
    by (simp add: init_problem_def)
  moreover have "Q_allowed ?P = Fin 0" "Q_target ?P = Fin 0" "Q_eco ?P = Fin 0" "Head ?P = Fin 50"
    by (simp_all add: init_problem_def get_float_def)
  ultimately obtain F where
    F: "evaluate ?P (map (map Fin) [[0, 0], [- 1, 3]]) = Inr F" "length F = length [[0, 0], [- 1, 3::real]]"
      "\<forall>r<length [[0, 0], [- 1, 3::real]]. \<forall>i<length (active_objs ?P).
               (active_objs ?P ! i = ''flood'' \<longrightarrow> (is_finite (F ! r ! i) \<longleftrightarrow> (0::real) \<noteq> 0)) \<and>
               (active_objs ?P ! i = ''supply'' \<longrightarrow>
                  (is_finite (F ! r ! i) \<longleftrightarrow> (0::real) \<noteq> 0 \<and> 1 \<le> n_var ?P))"
    using evaluate_finite_iff_divisors_nonzero [of ?P "[[0, 0], [- 1, 3]]" 0 0 0 50]
    by blast
  have acts: "active_objs ?P = [''supply'', ''flood'', ''power'']"
    by (simp add: init_problem_def)
  have "\<not> is_finite (F ! 0 ! 0)" using F(3) [rule_format, of 0 0] by (simp add: acts)
  moreover have "\<not> is_finite (F ! 0 ! 1)" using F(3) [rule_format, of 0 1] by (simp add: acts)
  moreover have "\<not> is_finite (F ! 1 ! 0)" using F(3) [rule_format, of 1 0] by (simp add: acts)
  moreover have "\<not> is_finite (F ! 1 ! 1)" using F(3) [rule_format, of 1 1] by (simp add: acts)
  ultimately show ?thesis using F(1,2) by simp
qed

section \<open>Diagnostics of one solution\<close>

lemma foldl_fminimum_Fin: "foldl fminimum (Fin a) (map Fin xs) = Fin (foldl min a xs)"
  by (induction xs arbitrary: a) simp_all

lemma foldl_min_Min: "foldl min (a::real) xs = Min (set (a # xs))"
proof -
  have "foldl min a xs = fold min xs a"
    by (simp add: foldl_conv_fold min.commute)
  then show ?thesis by (simp only: Min.set_eq_fold)
qed

lemma np_min_Fin: "xs \<noteq> [] \<Longrightarrow> np_min (map Fin xs) = Inr (Fin (Min (set xs)))"
  by (cases xs) (simp_all only: list.map np_min.simps foldl_fminimum_Fin foldl_min_Min, simp)

lemma np_mean_Fin: "xs \<noteq> [] \<Longrightarrow> np_mean (map Fin xs) = Fin (spec_mean xs)"
  by (simp add: np_mean_def np_sum_Fin spec_mean_def)

lemma np_mean_map_Fin:
  "xs \<noteq> [] \<Longrightarrow> np_mean (map (\<lambda>x. Fin (g x)) xs) = Fin ((\<Sum>x\<leftarrow>xs. g x) / of_nat (length xs))"
  by (simp add: np_mean_def np_sum_map_Fin)

lemma np_std_Fin: "xs \<noteq> [] \<Longrightarrow> np_std (map Fin xs) = Fin (spec_std xs)"
proof -
  assume ne: "xs \<noteq> []"
  have nonneg: "0 \<le> (\<Sum>x\<leftarrow>xs. (x - spec_mean xs) * (x - spec_mean xs)) / of_nat (length xs)"
    by (intro divide_nonneg_nonneg sum_list_nonneg) auto
  have "np_std (map Fin xs) =
          fsqrt (Fin ((\<Sum>x\<leftarrow>xs. (x - spec_mean xs) * (x - spec_mean xs)) / of_nat (length xs)))"
    using ne by (simp add: np_std_def Let_def spec_mean_def fsub_def comp_def np_mean_map_Fin)
  then show ?thesis
    using nonneg by (simp add: spec_std_def power2_eq_square)
qed

lemma fge_Fin: "fge (Fin a) (Fin b) \<longleftrightarrow> b \<le> a"
  by (auto simp: fge_def fle_def)

text \<open>
  Claim C7. For a real decision vector \<open>x\<close> with at least one step and real parameters,
  \<open>analyze_single_solution\<close> returns exactly the record of flow statistics (min, max,
  mean, population standard deviation, sum), constraint values (min(x) - Q_min,
  max(x) - Q_max, max(x)/Q_allowed, sum(max(Q_target - x, 0)), count(x < Q_eco)) and
  performance metrics (sum(x*head), fraction of steps with x >= Q_target, fraction with
  x >= Q_eco). The function is a pure function of its arguments; \<open>f\<close> and \<open>active_objs\<close>
  do not influence the result.
\<close>

theorem analyze_single_solution_diagnostics:
  assumes "xs \<noteq> []"
    and "analysis_params ps = (Fin qmin, Fin qmax, Fin qa, Fin qt, Fin qe, Fin h)"
  shows "analyze_single_solution (map Fin xs) f acts ps =
           Inr (spec_analysis qmin qmax qa qt qe h xs)"
proof -
  have p: "get_float ps ''Q_min'' (Fin 0) = Fin qmin"
    "get_float ps ''Q_max'' (Fin 1000) = Fin qmax"
    "get_float ps ''Q_allowed'' (Fin qmax) = Fin qa"
    "get_float ps ''Q_target'' (fdiv (fadd (Fin qmin) (Fin qmax)) (Fin 2)) = Fin qt"
    "get_float ps ''Q_eco'' (Fin qmin) = Fin qe"
    "get_float ps ''head'' (Fin 50) = Fin h"
  proof -
    have a: "get_float ps ''Q_min'' (Fin 0) = Fin qmin" "get_float ps ''Q_max'' (Fin 1000) = Fin qmax"
      using assms(2) by (simp_all add: analysis_params_def Let_def)
    show "get_float ps ''Q_min'' (Fin 0) = Fin qmin" "get_float ps ''Q_max'' (Fin 1000) = Fin qmax"
      by (rule a)+
    show "get_float ps ''Q_allowed'' (Fin qmax) = Fin qa"
      "get_float ps ''Q_target'' (fdiv (fadd (Fin qmin) (Fin qmax)) (Fin 2)) = Fin qt"
      "get_float ps ''Q_eco'' (Fin qmin) = Fin qe"
      "get_float ps ''head'' (Fin 50) = Fin h"
      using assms(2) unfolding analysis_params_def Let_def a by simp_all
  qed
  show ?thesis
    unfolding analyze_single_solution_def Let_def p
    using assms(1)
    by (simp add: np_min_Fin np_max_Fin np_mean_Fin np_std_Fin np_sum_Fin np_sum_map_Fin
        fsub_def comp_def count_true_map fge_Fin spec_analysis_def spec_fraction_def)
qed


theorem analyze_single_solution_diagnostics_witness:
  "analyze_single_solution [Fin 2, Fin 4] [Fin 0] [''flood'']
      [''Q_target'' \<mapsto> PInt 3, ''Q_eco'' \<mapsto> PFloat (Fin 3)]
     = Inr \<lparr> min_flow = Fin 2, max_flow = Fin 4, mean_flow = Fin 3, std_flow = Fin 1,
             total_volume = Fin 6, min_flow_violation = Fin 2, max_flow_violation = Fin (- 996),
             flood_risk = Fin (1 / 250), supply_deficit = Fin 1, ecology_violation = Fin 1,
             power_generation = Fin 300, supply_reliability = Fin (1 / 2),
             ecology_satisfaction = Fin (1 / 2) \<rparr>"
proof -
  have "analysis_params [''Q_target'' \<mapsto> PInt 3, ''Q_eco'' \<mapsto> PFloat (Fin 3)]
          = (Fin 0, Fin 1000, Fin 1000, Fin 3, Fin 3, Fin 50)"
    by (simp add: analysis_params_def get_float_def Let_def)
  then show ?thesis
    using analyze_single_solution_diagnostics
            [of "[2, 4]" "[''Q_target'' \<mapsto> PInt 3, ''Q_eco'' \<mapsto> PFloat (Fin 3)]"
                0 1000 1000 3 3 50 "[Fin 0]" "[''flood'']"]
    by (simp add: spec_analysis_def spec_mean_def spec_std_def spec_fraction_def)
qed

section \<open>Strategy recommendation\<close>




lemma fle_Fin: "fle (Fin a) (Fin b) \<longleftrightarrow> a \<le> b"
  by (auto simp: fle_def)









































section \<open>Reference directions\<close>

lemma compositions_sum_length:
  "c \<in> set (compositions p m) \<Longrightarrow> sum_list c = p \<and> length c = m"
proof (induction p m arbitrary: c rule: compositions.induct)
  case (1 p)
  then show ?case by (simp split: if_splits)
next
  case (2 p)
  then show ?case by simp
next
  case (3 p m)
  from "3.prems" obtain k c' where k: "k < Suc p" "c = k # c'"
    "c' \<in> set (compositions (p - k) (Suc m))"
    by auto
  have "k = p \<or> k < p" using k(1) by linarith
  then have "k \<in> set [0..<Suc p]" by auto
  from "3.IH" [OF this k(3)] have "sum_list c' = p - k \<and> length c' = Suc m" .
  then show ?case using k by simp
qed

lemma sum_choose_diag: "(\<Sum>k\<leftarrow>[0..<Suc p]. (p - k + m) choose m) = (p + Suc m) choose Suc m"
proof -
  have "(\<Sum>k\<leftarrow>[0..<Suc p]. (p - k + m) choose m) = (\<Sum>k<Suc p. (Suc p - Suc k + m) choose m)"
    by (simp add: interv_sum_list_conv_sum_set_nat lessThan_atLeast0)
  also have "\<dots> = (\<Sum>k<Suc p. (k + m) choose m)"
    by (rule sum.nat_diff_reindex [of "\<lambda>j. (j + m) choose m" "Suc p"])
  also have "\<dots> = (\<Sum>k\<le>p. (m + k) choose k)"
  proof -
    have "(k + m) choose m = (m + k) choose k" for k
      using binomial_symmetric [of m "k + m"] by (simp add: add.commute)
    then show ?thesis
      by (simp add: lessThan_Suc_atMost del: sum.lessThan_Suc)
  qed
  also have "\<dots> = Suc (m + p) choose p"
    by (rule sum_choose_lower)
  also have "\<dots> = (p + Suc m) choose Suc m"
    using binomial_symmetric [of p "Suc (m + p)"] by (simp add: add.commute)
  finally show ?thesis .
qed

lemma length_compositions: "length (compositions p (Suc m)) = (p + m) choose m"
proof (induction m arbitrary: p)
  case 0
  then show ?case by simp
next
  case (Suc m)
  have "length (compositions p (Suc (Suc m))) =
          (\<Sum>k\<leftarrow>[0..<Suc p]. length (compositions (p - k) (Suc m)))"
    by (simp add: length_concat comp_def del: upt_Suc)
  also have "\<dots> = (\<Sum>k\<leftarrow>[0..<Suc p]. (p - k + m) choose m)"
    by (simp only: Suc.IH)
  also have "\<dots> = (p + Suc m) choose Suc m"
    by (rule sum_choose_diag)
  finally show ?case .
qed

lemma distinct_concat_map:
  assumes "distinct ks" and "\<And>k. k \<in> set ks \<Longrightarrow> distinct (f k)"
    and "\<And>k k'. k \<in> set ks \<Longrightarrow> k' \<in> set ks \<Longrightarrow> k \<noteq> k' \<Longrightarrow> set (f k) \<inter> set (f k') = {}"
  shows "distinct (concat (map f ks))"
  using assms
proof (induction ks)
  case Nil
  then show ?case by simp
next
  case (Cons k ks)
  have "distinct (concat (map f ks))"
    using Cons.prems by (intro Cons.IH) auto
  moreover have "distinct (f k)" using Cons.prems(2) by simp
  moreover have "set (f k) \<inter> (\<Union>k'\<in>set ks. set (f k')) = {}"
  proof -
    have "set (f k) \<inter> set (f k') = {}" if "k' \<in> set ks" for k'
      using Cons.prems(1) Cons.prems(3) [of k k'] that by auto
    then show ?thesis by blast
  qed
  ultimately show ?case by simp
qed

lemma distinct_compositions: "distinct (compositions p m)"
proof (induction p m rule: compositions.induct)
  case (1 p)
  then show ?case by simp
next
  case (2 p)
  then show ?case by simp
next
  case (3 p m)
  show ?case
    unfolding compositions.simps
  proof (rule distinct_concat_map)
    show "distinct [0..<Suc p]" by simp
    fix k assume "k \<in> set [0..<Suc p]"
    then show "distinct (map ((#) k) (compositions (p - k) (Suc m)))"
      using "3.IH" [of k] by (simp add: distinct_map)
  next
    fix k k' :: nat assume "k \<noteq> k'"
    then show "set (map ((#) k) (compositions (p - k) (Suc m))) \<inter>
               set (map ((#) k') (compositions (p - k') (Suc m))) = {}"
      by auto
  qed
qed

lemma sum_list_scaled: "(\<Sum>k\<leftarrow>c. real k / real p) = real (sum_list c) / real p"
  by (induction c) (simp_all add: add_divide_distrib)

lemma inj_scale: "0 < p \<Longrightarrow> inj (map (\<lambda>k. real k / real p))"
proof (rule inj_mapI)
  assume "0 < p"
  then show "inj (\<lambda>k. real k / real p)" by (auto simp: inj_on_def)
qed

text \<open>
  Claim C6. For \<open>num_partitions = p \<ge> 1\<close> and \<open>num_objectives = m \<ge> 1\<close> the generated
  reference directions are \<open>C(p + m - 1, m - 1)\<close> pairwise different points, each with
  \<open>m\<close> non-negative coordinates that sum to exactly 1. The generator is a function of
  \<open>m\<close> and \<open>p\<close>, so the set is the same on every call.
\<close>

theorem reference_directions_simplex:
  assumes "1 \<le> p" and "1 \<le> m"
  shows "\<exists>pts. get_reference_directions m p = Inr pts \<and>
           length pts = (p + m - 1) choose (m - 1) \<and> distinct pts \<and>
           (\<forall>pt\<in>set pts. length pt = m \<and> sum_list pt = 1 \<and> (\<forall>x\<in>set pt. 0 \<le> x))"
proof -
  let ?pts = "map (map (\<lambda>k. real k / real p)) (compositions p m)"
  obtain m' where m': "m = Suc m'" using assms(2) by (cases m) auto
  have run: "get_reference_directions m p = Inr ?pts"
    using assms by (simp add: get_reference_directions_def)
  have len: "length ?pts = (p + m - 1) choose (m - 1)"
    by (simp add: m' length_compositions)
  have dist: "distinct ?pts"
    using assms(1) by (simp add: distinct_map distinct_compositions inj_scale [THEN inj_on_subset])
  have pts: "\<forall>pt\<in>set ?pts. length pt = m \<and> sum_list pt = 1 \<and> (\<forall>x\<in>set pt. 0 \<le> x)"
  proof
    fix pt assume "pt \<in> set ?pts"
    then obtain c where c: "c \<in> set (compositions p m)" "pt = map (\<lambda>k. real k / real p) c"
      by auto
    from compositions_sum_length [OF c(1)] have "sum_list c = p" "length c = m" by simp_all
    then show "length pt = m \<and> sum_list pt = 1 \<and> (\<forall>x\<in>set pt. 0 \<le> x)"
      using assms(1) by (auto simp: c(2) sum_list_scaled)
  qed
  from run len dist pts show ?thesis by blast
qed

theorem reference_directions_simplex_witness:
  "get_reference_directions 3 2 =
     Inr [[0, 0, 1], [0, 1 / 2, 1 / 2], [0, 1, 0], [1 / 2, 0, 1 / 2], [1 / 2, 1 / 2, 0], [1, 0, 0]]
   \<and> (2 + 3 - 1) choose (3 - 1) = (6::nat)"
  using reference_directions_simplex [of 2 3]
  by (simp add: get_reference_directions_def numeral_2_eq_2 numeral_3_eq_3 binomial_eq_0 upt_rec)

section \<open>The optimisation run\<close>

lemma successes_Cons:
  "successes env cfg (rid # rids) =
     (case reservoir_step env cfg rid of Inr (Some p) \<Rightarrow> [p] | _ \<Rightarrow> []) @ successes env cfg rids"
  by (simp add: successes_def)

lemma optimize_loop_returns:
  assumes "\<forall>rid\<in>set rids. \<exists>out. reservoir_step env cfg rid = Inr out"
  shows "optimize_loop env cfg rids st =
           Inr \<lparr> all_results = all_results st @ map fst (successes env cfg rids),
                 all_strategies = all_strategies st @ map snd (successes env cfg rids),
                 printed = printed st @ concat (map (step_lines env cfg) rids) \<rparr>"
  using assms
proof (induction rids arbitrary: st)
  case Nil
  then show ?case by (simp add: successes_def)
next
  case (Cons rid rids)
  from Cons.prems obtain o' where o': "reservoir_step env cfg rid = Inr o'" by auto
  have rest: "\<forall>r\<in>set rids. \<exists>out. reservoir_step env cfg r = Inr out" using Cons.prems by simp
  show ?case
  proof (cases o')
    case None
    then show ?thesis
      using o' Cons.IH [OF rest] by (simp add: successes_Cons step_lines_def)
  next
    case (Some p)
    obtain df strat where p: "p = (df, strat)" by (cases p)
    show ?thesis
      using o' Some p Cons.IH [OF rest] by (simp add: successes_Cons step_lines_def)
  qed
qed

lemma optimize_loop_raises:
  assumes "\<exists>rid\<in>set rids. \<exists>e. reservoir_step env cfg rid = Inl e"
  shows "\<exists>e. optimize_loop env cfg rids st = Inl e"
  using assms
proof (induction rids arbitrary: st)
  case Nil
  then show ?case by simp
next
  case (Cons rid rids)
  show ?case
  proof (cases "reservoir_step env cfg rid")
    case (Inl e)
    then show ?thesis by simp
  next
    case (Inr o')
    then have "\<exists>r\<in>set rids. \<exists>e. reservoir_step env cfg r = Inl e" using Cons.prems by auto
    then have "\<And>st'. \<exists>e. optimize_loop env cfg rids st' = Inl e" using Cons.IH by blast
    then show ?thesis using Inr by (cases o') (auto split: prod.splits)
  qed
qed

lemma optimize_loop_Inr_steps:
  assumes "optimize_loop env cfg rids st = Inr st'"
  shows "\<forall>rid\<in>set rids. \<exists>out. reservoir_step env cfg rid = Inr out"
proof (rule ccontr)
  assume "\<not> (\<forall>rid\<in>set rids. \<exists>out. reservoir_step env cfg rid = Inr out)"
  then obtain rid where "rid \<in> set rids" "\<forall>out. reservoir_step env cfg rid \<noteq> Inr out" by auto
  then have "\<exists>rid\<in>set rids. \<exists>e. reservoir_step env cfg rid = Inl e"
    by (cases "reservoir_step env cfg rid") auto
  from optimize_loop_raises [OF this, of st] assms show False by auto
qed

lemma successes_empty_iff:
  assumes "\<forall>rid\<in>set rids. \<exists>out. reservoir_step env cfg rid = Inr out"
  shows "successes env cfg rids = [] \<longleftrightarrow> (\<forall>rid\<in>set rids. reservoir_step env cfg rid = Inr None)"
  using assms
proof (induction rids)
  case Nil
  then show ?case by (simp add: successes_def)
next
  case (Cons rid rids)
  from Cons.prems obtain o' where "reservoir_step env cfg rid = Inr o'" by auto
  then show ?case using Cons by (cases o') (auto simp: successes_Cons)
qed

lemma failed_line_printed:
  "rid \<in> set rids \<Longrightarrow> reservoir_step env cfg rid = Inr None \<Longrightarrow>
     LogFailed rid \<in> set (concat (map (step_lines env cfg) rids))"
  by (auto simp: step_lines_def intro!: bexI [of _ rid])

text \<open>
  The ways \<open>optimize\<close> ends once an objective is active and the settings parse: the
  reservoir count raises, a run raises, every run returns without a population, or some
  run gives one.
\<close>

lemma optimize_count_error:
  assumes "active_of objectives \<noteq> []" and "config_of objectives ps = Inr cfg"
    and "reservoir_count_of data = Inl e"
  shows "optimize env data objectives ps self = (Inl e, self)"
  using assms by (simp add: optimize_def)

lemma optimize_raises:
  assumes "active_of objectives \<noteq> []" and "config_of objectives ps = Inr cfg"
    and "\<exists>rid\<in>set [1..<n + 1]. \<exists>e. reservoir_step env cfg rid = Inl e"
    and "reservoir_count_of data = Inr n"
  shows "\<exists>e. optimize env data objectives ps self = (Inl e, self)"
proof -
  from optimize_loop_raises [OF assms(3)] obtain e where
    "optimize_loop env cfg [1..<n + 1]
       \<lparr> all_results = [], all_strategies = [], printed = detected_log data \<rparr> = Inl e"
    by blast
  then show ?thesis using assms(1,2,4) by (simp add: optimize_def)
qed

lemma optimize_all_failed:
  assumes "active_of objectives \<noteq> []" and "config_of objectives ps = Inr cfg"
    and "\<forall>rid\<in>set [1..<n + 1]. reservoir_step env cfg rid = Inr None"
    and "reservoir_count_of data = Inr n"
  shows "optimize env data objectives ps self =
           (Inr (None, detected_log data
                   @ concat (map (step_lines env cfg) [1..<n + 1])
                   @ [LogAllFailed]), self)"
proof -
  let ?rids = "[1..<n + 1]"
  have steps: "\<forall>rid\<in>set ?rids. \<exists>out. reservoir_step env cfg rid = Inr out" using assms(3) by auto
  have "successes env cfg ?rids = []"
    using successes_empty_iff [OF steps] assms(3) by simp
  then show ?thesis
    using assms(1,2,4) optimize_loop_returns [OF steps]
    by (simp add: optimize_def del: upt_Suc)
qed

lemma optimize_after_loop:
  assumes "active_of objectives \<noteq> []" and "config_of objectives ps = Inr cfg"
    and "optimize_loop env cfg [1..<n + 1]
           \<lparr> all_results = [], all_strategies = [], printed = detected_log data \<rparr> = Inr st"
    and "all_results st = df0 # dfs"
    and "reservoir_count_of data = Inr n"
  shows "optimize env data objectives ps self =
           (let df = \<lparr> columns = columns df0, rows = concat (map rows (df0 # dfs)),
                        attrs = Some (build_comprehensive_strategy_report (all_strategies st)
                                   n (cfg_active_objs cfg) ps) \<rparr>
            in (Inr (Some df, printed st @ [LogFinished (length (df0 # dfs)), LogReportGenerated]),
                self\<lparr> results := Some df \<rparr>))"
  using assms by (simp add: optimize_def Let_def del: upt_Suc)

lemma optimize_some_succeeded:
  assumes "active_of objectives \<noteq> []" and "config_of objectives ps = Inr cfg"
    and "\<forall>rid\<in>set [1..<n + 1]. \<exists>out. reservoir_step env cfg rid = Inr out"
    and "\<exists>rid\<in>set [1..<n + 1]. reservoir_step env cfg rid \<noteq> Inr None"
    and "reservoir_count_of data = Inr n"
  shows "\<exists>df. optimize env data objectives ps self =
           (Inr (Some df, detected_log data
                   @ concat (map (step_lines env cfg) [1..<n + 1])
                   @ [LogFinished (length (successes env cfg [1..<n + 1])),
                      LogReportGenerated]),
            self\<lparr> results := Some df \<rparr>) \<and>
           rows df = concat (map (\<lambda>p. rows (fst p)) (successes env cfg [1..<n + 1])) \<and>
           columns df = columns (fst (hd (successes env cfg [1..<n + 1])))"
proof -
  let ?rids = "[1..<n + 1]"
  have ne: "successes env cfg ?rids \<noteq> []"
    using successes_empty_iff [OF assms(3)] assms(4) by blast
  then obtain p ss where ss: "successes env cfg ?rids = p # ss" by (cases "successes env cfg ?rids") auto
  have loop: "optimize_loop env cfg ?rids
       \<lparr> all_results = [], all_strategies = [], printed = detected_log data \<rparr> =
        Inr \<lparr> all_results = map fst (p # ss), all_strategies = map snd (p # ss),
              printed = detected_log data @ concat (map (step_lines env cfg) ?rids) \<rparr>"
    using optimize_loop_returns [OF assms(3)] by (simp only: ss loop_state.simps append_Nil)
  obtain df0 st0 where p: "p = (df0, st0)" by (cases p)
  have ss': "successes env cfg [Suc 0..<Suc n] = p # ss"
    using ss by (simp del: upt_Suc)
  show ?thesis
    using optimize_after_loop [OF assms(1,2) loop _ assms(5), of df0 "map fst ss" self]
    by (simp add: p ss' Let_def comp_def del: upt_Suc)
qed

lemma example_config:
  "config_of example_objectives example_params =
     Inr \<lparr> cfg_active_objs = [''flood'', ''supply''], cfg_pop_size = 100, cfg_n_gen = 100,
           cfg_n_ref = 12, cfg_horizon = 1, cfg_Q_min = Fin 0, cfg_Q_max = Fin 1000,
           cfg_params = example_params \<rparr>"
  by (simp add: config_of_def example_objectives_def example_params_def get_int_def
      get_float_def active_of_def)

lemma example_evaluate:
  "evaluate (init_problem 1 [''flood'', ''supply''] (Fin 0) (Fin 1000) example_params) example_X
     = Inr [[Fin (1 / 2), Fin 0], [Fin (3 / 5), Fin 0]]"
  by (simp add: evaluate_def init_problem_def example_params_def example_X_def get_float_def
      np_zeros_def flood_column_def supply_column_def np_max_axis1_def set_col_def
      np_sum_def fsub_def)

lemma example_frame:
  "reservoir_frame [[Fin (1 / 2), Fin 0], [Fin (3 / 5), Fin 0]] [''flood'', ''supply''] rid =
     Inr \<lparr> columns = [''flood'', ''supply'', ''reservoir_id'', ''time_step''],
           rows = [[CFloat (Fin (1 / 2)), CFloat (Fin 0), CInt (int rid), CInt 0],
                   [CFloat (Fin (3 / 5)), CFloat (Fin 0), CInt (int rid), CInt 1]],
           attrs = None \<rparr>"
  by (simp add: reservoir_frame_def new_frame_def set_column_def Let_def upt_rec)

lemma example_strategy:
  "\<exists>st. build_reservoir_strategy example_env example_X
          [[Fin (1 / 2), Fin 0], [Fin (3 / 5), Fin 0]] rid [''flood'', ''supply'']
          example_params 1 = Inr st"
  by (simp add: build_reservoir_strategy_def get_pareto_front_def example_env_def example_X_def
      get_row_def build_solution_def analyze_single_solution_def recommend_strategies_def
      priority_block_def balanced_block_def get_col_def broadcast_mul_def Let_def)

lemma optimize_no_objectives:
  "active_of objectives = [] \<Longrightarrow>
     optimize env data objectives ps self = (Inr (None, [LogNoObjectives]), self)"
  by (simp add: optimize_def)

lemma optimize_config_error:
  "active_of objectives \<noteq> [] \<Longrightarrow> config_of objectives ps = Inl e \<Longrightarrow>
     optimize env data objectives ps self = (Inl e, self)"
  by (simp add: optimize_def)

text \<open>Every run of \<open>optimize\<close> with an active objective falls under one of five cases.\<close>

lemma optimize_cases:
  assumes "active_of objectives \<noteq> []"
  obtains
    (config) e where "config_of objectives ps = Inl e"
      "optimize env data objectives ps self = (Inl e, self)"
  | (count) cfg e where "config_of objectives ps = Inr cfg"
      "reservoir_count_of data = Inl e"
      "optimize env data objectives ps self = (Inl e, self)"
  | (raised) cfg n e where "config_of objectives ps = Inr cfg"
      "\<exists>rid\<in>set [1..<n + 1]. \<exists>e'. reservoir_step env cfg rid = Inl e'"
      "optimize env data objectives ps self = (Inl e, self)"
      "reservoir_count_of data = Inr n"
  | (failed) cfg n lg where "config_of objectives ps = Inr cfg"
      "\<forall>rid\<in>set [1..<n + 1]. reservoir_step env cfg rid = Inr None"
      "optimize env data objectives ps self = (Inr (None, lg), self)"
      "reservoir_count_of data = Inr n"
  | (succeeded) cfg n df lg where "config_of objectives ps = Inr cfg"
      "\<forall>rid\<in>set [1..<n + 1]. \<exists>out. reservoir_step env cfg rid = Inr out"
      "\<exists>rid\<in>set [1..<n + 1]. reservoir_step env cfg rid \<noteq> Inr None"
      "optimize env data objectives ps self = (Inr (Some df, lg), self\<lparr> results := Some df \<rparr>)"
      "rows df = concat (map (\<lambda>p. rows (fst p)) (successes env cfg [1..<n + 1]))"
      "columns df = columns (fst (hd (successes env cfg [1..<n + 1])))"
      "\<forall>rid\<in>set [1..<n + 1].
         reservoir_step env cfg rid = Inr None \<longrightarrow> LogFailed rid \<in> set lg"
      "reservoir_count_of data = Inr n"
proof (cases "config_of objectives ps")
  case (Inl e)
  then show ?thesis using config optimize_config_error [OF assms] by blast
next
  case (Inr cfg)
  show ?thesis
  proof (cases "reservoir_count_of data")
    case (Inl e)
    from optimize_count_error [OF assms Inr Inl] show ?thesis using count Inr Inl by blast
  next
    case cnt: (Inr n)
    let ?rids = "[1..<n + 1]"
    show ?thesis
    proof (cases "\<exists>rid\<in>set ?rids. \<exists>e'. reservoir_step env cfg rid = Inl e'")
      case True
      from optimize_raises [OF assms Inr True cnt] show ?thesis using raised Inr True cnt by blast
    next
      case False
      then have steps: "\<forall>rid\<in>set ?rids. \<exists>out. reservoir_step env cfg rid = Inr out"
        by (metis sum.exhaust)
      show ?thesis
      proof (cases "\<forall>rid\<in>set ?rids. reservoir_step env cfg rid = Inr None")
        case True
        from optimize_all_failed [OF assms Inr True cnt] show ?thesis
          using failed Inr True cnt by blast
      next
        case False
        then have some: "\<exists>rid\<in>set ?rids. reservoir_step env cfg rid \<noteq> Inr None" by blast
        from optimize_some_succeeded [OF assms Inr steps some cnt, of self] obtain df where df:
          "optimize env data objectives ps self =
             (Inr (Some df, detected_log data @ concat (map (step_lines env cfg) ?rids)
                     @ [LogFinished (length (successes env cfg ?rids)), LogReportGenerated]),
              self\<lparr> results := Some df \<rparr>)"
          "rows df = concat (map (\<lambda>p. rows (fst p)) (successes env cfg ?rids))"
          "columns df = columns (fst (hd (successes env cfg ?rids)))"
          by blast
        have "\<forall>rid\<in>set ?rids. reservoir_step env cfg rid = Inr None \<longrightarrow>
                LogFailed rid \<in> set (detected_log data @ concat (map (step_lines env cfg) ?rids)
                     @ [LogFinished (length (successes env cfg ?rids)), LogReportGenerated])"
          using failed_line_printed [of _ ?rids env cfg] by auto
        with df Inr steps some cnt show ?thesis using succeeded by blast
      qed
    qed
  qed
qed

text \<open>
  Claim C2, amended. With no enabled objective \<open>optimize\<close> returns \<open>None\<close> at once,
  whatever the optimizer would do (no reservoir is attempted). It returns \<open>None\<close>
  exactly when no objective is enabled, or the settings parse, the number of reservoirs
  is found and every reservoir's run returns without a usable population. When every run
  returns and at least one gives a population, the result is a frame holding the rows of
  every such reservoir in loop order, and each reservoir without a population has its
  failure line printed: it is skipped and the loop goes on. A run that raises is not
  skipped: the exception leaves \<open>optimize\<close>, which returns neither \<open>None\<close> nor a
  frame, whatever the other reservoirs' runs give, and the manager is unchanged.
\<close>

theorem optimize_None_iff_no_objective_or_all_failed:
  "(active_of objectives = [] \<longrightarrow>
      optimize env data objectives ps self = (Inr (None, [LogNoObjectives]), self))
   \<and> ((\<exists>lg. fst (optimize env data objectives ps self) = Inr (None, lg)) \<longleftrightarrow>
        active_of objectives = [] \<or>
        (\<exists>cfg n. config_of objectives ps = Inr cfg \<and> reservoir_count_of data = Inr n \<and>
           (\<forall>rid\<in>set [1..<n + 1]. reservoir_step env cfg rid = Inr None)))
   \<and> (active_of objectives \<noteq> [] \<longrightarrow> config_of objectives ps = Inr cfg \<longrightarrow>
        reservoir_count_of data = Inr n \<longrightarrow>
        (\<forall>rid\<in>set [1..<n + 1]. \<exists>out. reservoir_step env cfg rid = Inr out) \<longrightarrow>
        (\<exists>rid\<in>set [1..<n + 1]. reservoir_step env cfg rid \<noteq> Inr None) \<longrightarrow>
        (\<exists>df lg. fst (optimize env data objectives ps self) = Inr (Some df, lg) \<and>
           rows df = concat (map (\<lambda>p. rows (fst p))
                               (successes env cfg [1..<n + 1])) \<and>
           (\<forall>rid\<in>set [1..<n + 1].
              reservoir_step env cfg rid = Inr None \<longrightarrow> LogFailed rid \<in> set lg)))
   \<and> (active_of objectives \<noteq> [] \<longrightarrow> config_of objectives ps = Inr cfg \<longrightarrow>
        reservoir_count_of data = Inr n \<longrightarrow>
        (\<exists>rid\<in>set [1..<n + 1]. \<exists>e. reservoir_step env cfg rid = Inl e) \<longrightarrow>
        (\<exists>e. optimize env data objectives ps self = (Inl e, self)))"
proof (intro conjI impI)
  assume "active_of objectives = []"
  then show "optimize env data objectives ps self = (Inr (None, [LogNoObjectives]), self)"
    by (rule optimize_no_objectives)
next
  show "(\<exists>lg. fst (optimize env data objectives ps self) = Inr (None, lg)) \<longleftrightarrow>
        active_of objectives = [] \<or>
        (\<exists>cfg n. config_of objectives ps = Inr cfg \<and> reservoir_count_of data = Inr n \<and>
           (\<forall>rid\<in>set [1..<n + 1]. reservoir_step env cfg rid = Inr None))"
  proof (cases "active_of objectives = []")
    case True
    then show ?thesis by (simp add: optimize_no_objectives)
  next
    case False
    then show ?thesis
    proof (cases rule: optimize_cases [of objectives ps env data self])
      case (config e)
      then show ?thesis using False by (auto simp del: upt_Suc set_upt)
    next
      case (count cfg e)
      then show ?thesis using False by (auto simp del: upt_Suc set_upt)
    next
      case (raised cfg m e)
      from raised(2) have "\<not> (\<forall>rid\<in>set [1..<m + 1].
                      reservoir_step env cfg rid = Inr None)"
        by (metis Inl_Inr_False)
      then show ?thesis using False raised(1,3,4) by (auto simp del: upt_Suc set_upt)
    next
      case (failed cfg m lg)
      then show ?thesis by (auto simp del: upt_Suc set_upt)
    next
      case (succeeded cfg m df lg)
      then show ?thesis using False by (auto simp del: upt_Suc set_upt)
    qed
  qed
next
  assume a: "active_of objectives \<noteq> []" "config_of objectives ps = Inr cfg"
    "\<forall>rid\<in>set [1..<n + 1]. \<exists>out. reservoir_step env cfg rid = Inr out"
    "\<exists>rid\<in>set [1..<n + 1]. reservoir_step env cfg rid \<noteq> Inr None"
    and cnt: "reservoir_count_of data = Inr n"
  from a(1) show "\<exists>df lg. fst (optimize env data objectives ps self) = Inr (Some df, lg) \<and>
           rows df = concat (map (\<lambda>p. rows (fst p))
                               (successes env cfg [1..<n + 1])) \<and>
           (\<forall>rid\<in>set [1..<n + 1].
              reservoir_step env cfg rid = Inr None \<longrightarrow> LogFailed rid \<in> set lg)"
  proof (cases rule: optimize_cases [of objectives ps env data self])
    case (config e)
    then show ?thesis using a(2) by (auto simp del: upt_Suc set_upt)
  next
    case (count cfg' e)
    then show ?thesis using cnt by simp
  next
    case (raised cfg' m e)
    then have "cfg' = cfg" "m = n" using a(2) cnt by simp_all
    with raised(2) a(3) show ?thesis by (auto simp del: upt_Suc set_upt)
  next
    case (failed cfg' m lg)
    then have "cfg' = cfg" "m = n" using a(2) cnt by simp_all
    with failed(2) a(4) show ?thesis by (auto simp del: upt_Suc set_upt)
  next
    case (succeeded cfg' m df lg)
    then have "cfg' = cfg" "m = n" using a(2) cnt by simp_all
    with succeeded(4,5,7) show ?thesis by (auto simp del: upt_Suc set_upt)
  qed
next
  assume b: "active_of objectives \<noteq> []" "config_of objectives ps = Inr cfg"
    "reservoir_count_of data = Inr n"
    "\<exists>rid\<in>set [1..<n + 1]. \<exists>e. reservoir_step env cfg rid = Inl e"
  show "\<exists>e. optimize env data objectives ps self = (Inl e, self)"
    by (rule optimize_raises [OF b(1,2,4,3)])
qed

text \<open>
  Claim C9. \<open>optimize\<close> assigns \<open>self.results\<close> only on success: when it returns
  \<open>None\<close> (and also when it raises) the manager is the one before the call; when it
  returns a frame, \<open>results\<close> is that frame.
\<close>

theorem optimize_results_unchanged_unless_success:
  "(fst (optimize env data objectives ps self) = Inr (None, lg) \<longrightarrow>
      snd (optimize env data objectives ps self) = self)
   \<and> (fst (optimize env data objectives ps self) = Inl e \<longrightarrow>
      snd (optimize env data objectives ps self) = self)
   \<and> (fst (optimize env data objectives ps self) = Inr (Some df, lg) \<longrightarrow>
      snd (optimize env data objectives ps self) = self\<lparr> results := Some df \<rparr>)"
proof (cases "active_of objectives = []")
  case True
  then show ?thesis by (simp add: optimize_no_objectives)
next
  case False
  then show ?thesis
  proof (cases rule: optimize_cases [of objectives ps env data self])
    case (config e)
    then show ?thesis by simp
  next
    case (count cfg e)
    then show ?thesis by simp
  next
    case (raised cfg n e)
    then show ?thesis by simp
  next
    case (failed cfg n lg)
    then show ?thesis by simp
  next
    case (succeeded cfg n df lg)
    then show ?thesis by simp
  qed
qed

lemma list_index_absent: "x \<notin> set ys \<Longrightarrow> list_index ys x = Inl ValueError"
  by (induction ys) auto

lemma list_index_append_hit: "x \<notin> set ys \<Longrightarrow> list_index (ys @ x # zs) x = Inr (length ys)"
  by (induction ys) auto

lemma reservoir_frame_rows:
  assumes "''reservoir_id'' \<notin> set acts" and "''time_step'' \<notin> set acts"
  shows "reservoir_frame F acts rid =
           (if \<forall>row\<in>set F. length row = length acts
            then Inr \<lparr> columns = acts @ [''reservoir_id'', ''time_step''],
                       rows = population_rows F rid, attrs = None \<rparr>
            else Inl ValueError)"
proof (cases "\<forall>row\<in>set F. length row = length acts")
  case False
  then show ?thesis by (auto simp: reservoir_frame_def new_frame_def)
next
  case True
  have i1: "list_index acts ''reservoir_id'' = Inl ValueError"
    using assms(1) by (rule list_index_absent)
  have i2: "list_index (acts @ [''reservoir_id'']) ''time_step'' = Inl ValueError"
    using assms(2) by (intro list_index_absent) simp
  have rows: "map (\<lambda>(row, v). row @ [v])
           (zip (map (\<lambda>(row, v). row @ [v])
                   (zip (map (map CFloat) F) (replicate (length F) (CInt (int rid)))))
                (map (\<lambda>i. CInt (int i)) [0..<length F]))
         = population_rows F rid"
    by (intro nth_equalityI) (simp_all add: population_rows_def nth_enumerate_eq)
  show ?thesis
    using True
    by (simp add: reservoir_frame_def new_frame_def set_column_def Let_def i1 i2 rows)
qed

lemma reservoir_step_problem:
  "reservoir_step env cfg rid =
     (case minimize env (problem_of cfg) (algorithm_of cfg) (cfg_n_gen cfg) rid of
        Inl e \<Rightarrow> Inl e
      | Inr None \<Rightarrow> Inr None
      | Inr (Some res) \<Rightarrow>
         (case res_pop res of
            None \<Rightarrow> Inr None
          | Some pop \<Rightarrow>
             (case pop_F pop of
                None \<Rightarrow> Inr None
              | Some F \<Rightarrow>
                 (case pop_X pop of
                    None \<Rightarrow> Inr None
                  | Some X \<Rightarrow>
                     (case reservoir_frame F (cfg_active_objs cfg) rid of
                        Inl e \<Rightarrow> Inl e
                      | Inr df \<Rightarrow>
                         (case build_reservoir_strategy env X F rid
                                 (cfg_active_objs cfg) (cfg_params cfg) (cfg_horizon cfg) of
                            Inl e \<Rightarrow> Inl e
                          | Inr strategy_info \<Rightarrow> Inr (Some (df, strategy_info))))))))"
  by (simp add: reservoir_step_def problem_of_def algorithm_of_def Let_def)

lemma reservoir_step_rows:
  assumes "''reservoir_id'' \<notin> set (cfg_active_objs cfg)"
    and "''time_step'' \<notin> set (cfg_active_objs cfg)"
    and "reservoir_step env cfg rid = Inr out"
  shows "(case out of
            None \<Rightarrow> []
          | Some p \<Rightarrow> rows (fst p)) =
         (case final_population env cfg rid of None \<Rightarrow> [] | Some F \<Rightarrow> population_rows F rid)
         \<and> (\<forall>p. out = Some p \<longrightarrow>
               columns (fst p) = cfg_active_objs cfg @ [''reservoir_id'', ''time_step''])"
  using assms(3)
  unfolding reservoir_step_problem final_population_def
    reservoir_frame_rows [OF assms(1,2)]
  by (auto split: sum.splits option.splits if_splits)

lemma successes_rows:
  assumes "''reservoir_id'' \<notin> set (cfg_active_objs cfg)"
    and "''time_step'' \<notin> set (cfg_active_objs cfg)"
    and "\<forall>rid\<in>set rids. \<exists>out. reservoir_step env cfg rid = Inr out"
  shows "concat (map (\<lambda>p. rows (fst p)) (successes env cfg rids)) =
           concat (map (\<lambda>rid. case final_population env cfg rid of
                                 None \<Rightarrow> [] | Some F \<Rightarrow> population_rows F rid) rids)"
  using assms(3)
proof (induction rids)
  case Nil
  then show ?case by (simp add: successes_def)
next
  case (Cons rid rids)
  from Cons.prems obtain out where out: "reservoir_step env cfg rid = Inr out" by auto
  from reservoir_step_rows [OF assms(1,2) out]
  have "(case out of None \<Rightarrow> [] | Some p \<Rightarrow> rows (fst p)) =
         (case final_population env cfg rid of None \<Rightarrow> [] | Some F \<Rightarrow> population_rows F rid)"
    by simp
  moreover have "concat (map (\<lambda>p. rows (fst p)) (successes env cfg rids)) =
           concat (map (\<lambda>rid. case final_population env cfg rid of
                                 None \<Rightarrow> [] | Some F \<Rightarrow> population_rows F rid) rids)"
    using Cons by simp
  ultimately show ?case
    using out by (cases out) (simp_all add: successes_Cons)
qed

lemma successes_columns:
  assumes "''reservoir_id'' \<notin> set (cfg_active_objs cfg)"
    and "''time_step'' \<notin> set (cfg_active_objs cfg)"
    and "p \<in> set (successes env cfg rids)"
  shows "columns (fst p) = cfg_active_objs cfg @ [''reservoir_id'', ''time_step'']"
proof -
  from assms(3) obtain rid where "reservoir_step env cfg rid = Inr (Some p)"
    by (auto simp: successes_def split: sum.splits option.splits)
  from reservoir_step_rows [OF assms(1,2) this] show ?thesis by simp
qed

lemma config_of_active: "config_of objectives ps = Inr cfg \<Longrightarrow> cfg_active_objs cfg = active_of objectives"
  by (auto simp: config_of_def split: sum.splits)

lemma optimize_table_rows:
  assumes "fst (optimize env data objectives ps self) = Inr (Some df, lg)"
    and "''reservoir_id'' \<notin> set (active_of objectives)"
    and "''time_step'' \<notin> set (active_of objectives)"
  shows "columns df = active_of objectives @ [''reservoir_id'', ''time_step''] \<and>
         (\<exists>cfg n. config_of objectives ps = Inr cfg \<and> reservoir_count_of data = Inr n \<and>
            rows df = concat (map (\<lambda>rid. case final_population env cfg rid of
                                            None \<Rightarrow> [] | Some F \<Rightarrow> population_rows F rid)
                                [1..<n + 1]))"
proof -
  have ne: "active_of objectives \<noteq> []"
    using assms(1) by (auto simp: optimize_no_objectives)
  then show ?thesis
  proof (cases rule: optimize_cases [of objectives ps env data self])
    case (config e)
    then show ?thesis using assms(1) by simp
  next
    case (count cfg e)
    then show ?thesis using assms(1) by simp
  next
    case (raised cfg n e)
    then show ?thesis using assms(1) by simp
  next
    case (failed cfg n lg')
    then show ?thesis using assms(1) by simp
  next
    case (succeeded cfg n df' lg')
    let ?rids = "[1..<n + 1]"
    have df: "df' = df" using succeeded(4) assms(1) by simp
    have acts: "cfg_active_objs cfg = active_of objectives"
      using succeeded(1) by (rule config_of_active)
    have a1: "''reservoir_id'' \<notin> set (cfg_active_objs cfg)"
      and a2: "''time_step'' \<notin> set (cfg_active_objs cfg)"
      using assms(2,3) acts by simp_all
    have "successes env cfg ?rids \<noteq> []"
      using successes_empty_iff [OF succeeded(2)] succeeded(3) by blast
    then have "hd (successes env cfg ?rids) \<in> set (successes env cfg ?rids)" by simp
    from successes_columns [OF a1 a2 this] have cols:
      "columns df = active_of objectives @ [''reservoir_id'', ''time_step'']"
      using succeeded(6) df acts by simp
    have "rows df = concat (map (\<lambda>rid. case final_population env cfg rid of
                                            None \<Rightarrow> [] | Some F \<Rightarrow> population_rows F rid) ?rids)"
      using succeeded(5) successes_rows [OF a1 a2 succeeded(2)] df by simp
    with cols succeeded(1,8) show ?thesis by blast
  qed
qed

text \<open>
  Claim C3, amended. The table \<open>optimize\<close> returns has exactly the columns of the active
  objectives followed by \<open>reservoir_id\<close> and \<open>time_step\<close>, and its rows are, for each
  reservoir in loop order whose run gave a usable population, every row of that final
  population's objective matrix (dominated or not), followed by the reservoir id and the
  row's position.
\<close>

theorem optimize_table_is_final_population:
  assumes "fst (optimize env data objectives ps self) = Inr (Some df, lg)"
    and "''reservoir_id'' \<notin> set (active_of objectives)"
    and "''time_step'' \<notin> set (active_of objectives)"
  shows "columns df = active_of objectives @ [''reservoir_id'', ''time_step''] \<and>
         (\<exists>cfg n. config_of objectives ps = Inr cfg \<and> reservoir_count_of data = Inr n \<and>
            rows df = concat (map (\<lambda>rid. case final_population env cfg rid of
                                            None \<Rightarrow> [] | Some F \<Rightarrow> population_rows F rid)
                                [1..<n + 1]))"
  using assms by (rule optimize_table_rows)

lemma example_config_of: "config_of example_objectives example_params = Inr example_cfg"
  by (simp add: example_config example_cfg_def)

lemma example_active: "active_of example_objectives = [''flood'', ''supply'']"
  by (simp add: active_of_def example_objectives_def)

lemma example_minimize:
  "minimize example_env (problem_of example_cfg) (algorithm_of example_cfg) (cfg_n_gen example_cfg) rid =
     (if rid = 2 then Inr None
      else Inr (Some \<lparr> res_pop = Some \<lparr> pop_F = Some example_F, pop_X = Some example_X \<rparr> \<rparr>))"
  using example_evaluate
  by (simp add: example_env_def problem_of_def example_cfg_def example_F_def)

lemma example_final_population:
  "final_population example_env example_cfg rid = (if rid = 2 then None else Some example_F)"
  by (simp add: final_population_def example_minimize)

lemma example_step_failed: "reservoir_step example_env example_cfg 2 = Inr None"
  by (simp add: reservoir_step_problem example_minimize)

lemma example_step_ok:
  "rid \<noteq> 2 \<Longrightarrow> \<exists>p. reservoir_step example_env example_cfg rid = Inr (Some p)"
proof -
  assume rid: "rid \<noteq> 2"
  have acts: "cfg_active_objs example_cfg = [''flood'', ''supply'']"
    "cfg_params example_cfg = example_params" "cfg_horizon example_cfg = 1"
    by (simp_all add: example_cfg_def)
  from example_strategy [of rid] obtain st where
    "build_reservoir_strategy example_env example_X example_F rid [''flood'', ''supply'']
          example_params 1 = Inr st"
    unfolding example_F_def by blast
  then show ?thesis
    unfolding reservoir_step_problem example_minimize acts
    using rid example_frame [of rid] by (simp add: example_F_def)
qed

lemma example_steps_return: "\<exists>out. reservoir_step example_env example_cfg rid = Inr out"
  using example_step_ok [of rid] example_step_failed by (cases "rid = 2") auto

lemma example_population_rows:
  "population_rows example_F rid =
     [[CFloat (Fin (1 / 2)), CFloat (Fin 0), CInt (int rid), CInt 0],
      [CFloat (Fin (3 / 5)), CFloat (Fin 0), CInt (int rid), CInt 1]]"
  by (simp add: population_rows_def example_F_def enumerate_eq_zip upt_rec)

lemma example_single_run:
  "\<exists>df lg. optimize example_env DataNone example_objectives example_params self =
            (Inr (Some df, lg), self\<lparr> results := Some df \<rparr>) \<and>
     rows df = [[CFloat (Fin (1 / 2)), CFloat (Fin 0), CInt 1, CInt 0],
                [CFloat (Fin (3 / 5)), CFloat (Fin 0), CInt 1, CInt 1]]"
proof -
  have ne: "active_of example_objectives \<noteq> []" by (simp add: example_active)
  have steps: "\<forall>rid\<in>set [1..<(1::nat) + 1].
                 \<exists>out. reservoir_step example_env example_cfg rid = Inr out"
    using example_steps_return by blast
  have some: "\<exists>rid\<in>set [1..<(1::nat) + 1].
                 reservoir_step example_env example_cfg rid \<noteq> Inr None"
    using example_step_ok [of 1] by auto
  have cnt: "reservoir_count_of DataNone = Inr 1" by simp
  from optimize_some_succeeded [OF ne example_config_of steps some cnt, of self] obtain df lg where
    run: "optimize example_env DataNone example_objectives example_params self =
            (Inr (Some df, lg), self\<lparr> results := Some df \<rparr>)"
    by blast
  then have "fst (optimize example_env DataNone example_objectives example_params self) =
               Inr (Some df, lg)" by simp
  from optimize_table_rows [OF this] have
    "rows df = [[CFloat (Fin (1 / 2)), CFloat (Fin 0), CInt 1, CInt 0],
                [CFloat (Fin (3 / 5)), CFloat (Fin 0), CInt 1, CInt 1]]"
    by (simp add: example_active example_config_of example_final_population
        example_population_rows)
  with run show ?thesis by blast
qed

text \<open>
  Claim C3 as stated fails: the returned table is built from the whole final population
  \<open>res.pop.get("F")\<close>, not from its Pareto front. In the example run the table of
  reservoir 1 holds the row (3/5, 0), which the row (1/2, 0) of the same run dominates.
\<close>

theorem table_holds_dominated_row:
  "\<not> pareto_rows_only 2
       (table_of (optimize example_env DataNone example_objectives example_params
                    \<lparr> results = None \<rparr>))"
proof -
  from example_single_run [of "\<lparr> results = None \<rparr>"] obtain df lg where
    "optimize example_env DataNone example_objectives example_params \<lparr> results = None \<rparr> =
       (Inr (Some df, lg), \<lparr> results = None \<rparr>\<lparr> results := Some df \<rparr>)"
    "rows df = [[CFloat (Fin (1 / 2)), CFloat (Fin 0), CInt 1, CInt 0],
                [CFloat (Fin (3 / 5)), CFloat (Fin 0), CInt 1, CInt 1]]"
    by blast
  then have "table_of (optimize example_env DataNone example_objectives example_params
                    \<lparr> results = None \<rparr>) =
               [[CFloat (Fin (1 / 2)), CFloat (Fin 0), CInt 1, CInt 0],
                [CFloat (Fin (3 / 5)), CFloat (Fin 0), CInt 1, CInt 1]]"
    by (simp add: table_of_def)
  then show ?thesis
    by (simp add: pareto_rows_only_def row_objectives_def dominates_def fle_def)
qed

lemma example_count: "reservoir_count_of example_data = Inr 3"
  by (simp add: example_data_def)

lemma example_range: "[1..<(3::nat) + 1] = [1, 2, 3]"
  by (simp add: upt_rec)

lemma reservoir_step_same_minimize:
  assumes "fast_non_dominated_sort env' = fast_non_dominated_sort env"
    and same: "minimize env' (problem_of cfg) (algorithm_of cfg) (cfg_n_gen cfg) i =
        minimize env (problem_of cfg) (algorithm_of cfg) (cfg_n_gen cfg) i"
  shows "reservoir_step env' cfg i = reservoir_step env cfg i"
proof -
  have bs: "build_reservoir_strategy env' X F i acts ps h = build_reservoir_strategy env X F i acts ps h"
    for X F acts ps h
    using assms(1) by (simp add: build_reservoir_strategy_def get_pareto_front_def)
  show ?thesis
    unfolding reservoir_step_problem same bs by (rule refl)
qed

lemma optimize_loop_error:
  assumes "active_of objectives \<noteq> []" and "config_of objectives ps = Inr cfg"
    and "reservoir_count_of data = Inr n"
    and "optimize_loop env cfg [1..<n + 1]
           \<lparr> all_results = [], all_strategies = [], printed = detected_log data \<rparr> = Inl e"
  shows "optimize env data objectives ps self = (Inl e, self)"
  using assms by (simp add: optimize_def del: upt_Suc)

lemma flaky_step_raises: "reservoir_step flaky_env example_cfg 2 = Inl ValueError"
  by (simp add: reservoir_step_problem flaky_env_def)

lemma flaky_step_ok:
  "rid \<noteq> 2 \<Longrightarrow> reservoir_step flaky_env example_cfg rid = reservoir_step example_env example_cfg rid"
  by (rule reservoir_step_same_minimize) (simp_all add: flaky_env_def)

lemma flaky_final_population:
  "rid \<noteq> 2 \<Longrightarrow> final_population flaky_env example_cfg rid = Some example_F"
  using example_final_population [of rid]
  by (simp add: final_population_def flaky_env_def)

lemma crossed_config_of: "config_of example_objectives crossed_params = Inr crossed_cfg"
  by (simp add: config_of_def crossed_cfg_def example_cfg_def example_objectives_def
      crossed_params_def example_params_def get_int_def get_float_def active_of_def)

lemma strict_minimize:
  "minimize strict_env (problem_of crossed_cfg) (algorithm_of crossed_cfg) (cfg_n_gen crossed_cfg) rid
     = Inl AssertionError"
  by (simp add: strict_env_def problem_of_def crossed_cfg_def example_cfg_def init_problem_def)

lemma strict_step_raises: "reservoir_step strict_env crossed_cfg rid = Inl AssertionError"
  by (simp add: reservoir_step_problem strict_minimize)

text \<open>
  Claim C2 as stated fails: a run that raises is neither logged nor skipped, because the
  loop of \<open>optimize\<close> has no handler. With three reservoirs of which the second raises,
  reservoir 1 has yielded a population, yet \<open>optimize\<close> returns no combined result: the
  exception leaves it. With one reservoir and the bounds crossed, the only run yields no
  population, yet \<open>optimize\<close> does not return \<open>None\<close>.
\<close>

theorem optimize_aborts_when_a_run_raises:
  "config_of example_objectives example_params = Inr example_cfg
   \<and> reservoir_count_of example_data = Inr 3
   \<and> final_population flaky_env example_cfg 1 = Some example_F
   \<and> (\<exists>p. reservoir_step flaky_env example_cfg 1 = Inr (Some p))
   \<and> reservoir_step flaky_env example_cfg 2 = Inl ValueError
   \<and> optimize flaky_env example_data example_objectives example_params \<lparr> results = None \<rparr>
       = (Inl ValueError, \<lparr> results = None \<rparr>)
   \<and> config_of example_objectives crossed_params = Inr crossed_cfg
   \<and> reservoir_count_of DataNone = Inr 1
   \<and> final_population strict_env crossed_cfg 1 = None
   \<and> optimize strict_env DataNone example_objectives crossed_params \<lparr> results = None \<rparr>
       = (Inl AssertionError, \<lparr> results = None \<rparr>)"
proof -
  have ne: "active_of example_objectives \<noteq> []" by (simp add: example_active)
  from example_step_ok [of 1] obtain p where p: "reservoir_step flaky_env example_cfg 1 = Inr (Some p)"
    using flaky_step_ok [of 1] by auto
  obtain df st where "p = (df, st)" by (cases p)
  with p have "optimize_loop flaky_env example_cfg [1, 2, 3]
       \<lparr> all_results = [], all_strategies = [], printed = detected_log example_data \<rparr>
         = Inl ValueError"
    by (simp add: flaky_step_raises)
  then have loop: "optimize_loop flaky_env example_cfg [1..<3 + 1]
       \<lparr> all_results = [], all_strategies = [], printed = detected_log example_data \<rparr>
         = Inl ValueError"
    unfolding example_range .
  have flaky: "optimize flaky_env example_data example_objectives example_params \<lparr> results = None \<rparr>
       = (Inl ValueError, \<lparr> results = None \<rparr>)"
    by (rule optimize_loop_error [OF ne example_config_of example_count loop])
  have strict: "optimize strict_env DataNone example_objectives crossed_params \<lparr> results = None \<rparr>
       = (Inl AssertionError, \<lparr> results = None \<rparr>)"
    using ne by (simp add: optimize_def crossed_config_of strict_step_raises)
  have "final_population strict_env crossed_cfg 1 = None"
    by (simp add: final_population_def strict_minimize)
  with flaky strict p show ?thesis
    by (simp add: example_config_of example_count flaky_final_population flaky_step_raises
        crossed_config_of)
qed

theorem optimize_None_iff_no_objective_or_all_failed_witness:
  "(\<exists>df lg. fst (optimize example_env example_data example_objectives example_params
                    \<lparr> results = None \<rparr>) = Inr (Some df, lg) \<and>
       LogFailed 2 \<in> set lg \<and>
       rows df = [[CFloat (Fin (1 / 2)), CFloat (Fin 0), CInt 1, CInt 0],
                  [CFloat (Fin (3 / 5)), CFloat (Fin 0), CInt 1, CInt 1],
                  [CFloat (Fin (1 / 2)), CFloat (Fin 0), CInt 3, CInt 0],
                  [CFloat (Fin (3 / 5)), CFloat (Fin 0), CInt 3, CInt 1]])
   \<and> optimize example_env example_data [(''flood'', False)] example_params \<lparr> results = None \<rparr>
       = (Inr (None, [LogNoObjectives]), \<lparr> results = None \<rparr>)"
proof -
  let ?rids = "[1..<(3::nat) + 1]"
  have ne: "active_of example_objectives \<noteq> []" by (simp add: example_active)
  have steps: "\<forall>rid\<in>set ?rids. \<exists>out. reservoir_step example_env example_cfg rid = Inr out"
    using example_steps_return by blast
  have some: "\<exists>rid\<in>set ?rids. reservoir_step example_env example_cfg rid \<noteq> Inr None"
    unfolding example_range using example_step_ok [of 1] by auto
  have a1: "''reservoir_id'' \<notin> set (cfg_active_objs example_cfg)"
    and a2: "''time_step'' \<notin> set (cfg_active_objs example_cfg)"
    by (simp_all add: example_cfg_def)
  have rows: "concat (map (\<lambda>p. rows (fst p)) (successes example_env example_cfg ?rids)) =
      [[CFloat (Fin (1 / 2)), CFloat (Fin 0), CInt 1, CInt 0],
       [CFloat (Fin (3 / 5)), CFloat (Fin 0), CInt 1, CInt 1],
       [CFloat (Fin (1 / 2)), CFloat (Fin 0), CInt 3, CInt 0],
       [CFloat (Fin (3 / 5)), CFloat (Fin 0), CInt 3, CInt 1]]"
  proof -
    have "concat (map (\<lambda>p. rows (fst p)) (successes example_env example_cfg ?rids)) =
      concat (map (\<lambda>rid. case final_population example_env example_cfg rid of
                                 None \<Rightarrow> [] | Some F \<Rightarrow> population_rows F rid) ?rids)"
      by (rule successes_rows [OF a1 a2 steps])
    also have "\<dots> = [[CFloat (Fin (1 / 2)), CFloat (Fin 0), CInt 1, CInt 0],
       [CFloat (Fin (3 / 5)), CFloat (Fin 0), CInt 1, CInt 1],
       [CFloat (Fin (1 / 2)), CFloat (Fin 0), CInt 3, CInt 0],
       [CFloat (Fin (3 / 5)), CFloat (Fin 0), CInt 3, CInt 1]]"
      unfolding example_range
      by (simp add: example_final_population example_population_rows)
    finally show ?thesis .
  qed
  have two: "2 \<in> set ?rids" unfolding example_range by simp
  from optimize_None_iff_no_objective_or_all_failed
         [where objectives = example_objectives and env = example_env and data = example_data
            and ps = example_params and self = "\<lparr> results = None \<rparr>"
            and cfg = example_cfg and n = 3]
  obtain df lg where
    "fst (optimize example_env example_data example_objectives example_params
            \<lparr> results = None \<rparr>) = Inr (Some df, lg)"
    "rows df = concat (map (\<lambda>p. rows (fst p)) (successes example_env example_cfg ?rids))"
    "\<forall>rid\<in>set ?rids. reservoir_step example_env example_cfg rid = Inr None \<longrightarrow>
        LogFailed rid \<in> set lg"
    using ne example_config_of example_count steps some by blast
  then have "fst (optimize example_env example_data example_objectives example_params
                    \<lparr> results = None \<rparr>) = Inr (Some df, lg) \<and>
       LogFailed 2 \<in> set lg \<and>
       rows df = [[CFloat (Fin (1 / 2)), CFloat (Fin 0), CInt 1, CInt 0],
                  [CFloat (Fin (3 / 5)), CFloat (Fin 0), CInt 1, CInt 1],
                  [CFloat (Fin (1 / 2)), CFloat (Fin 0), CInt 3, CInt 0],
                  [CFloat (Fin (3 / 5)), CFloat (Fin 0), CInt 3, CInt 1]]"
    using rows two example_step_failed by auto
  moreover have "optimize example_env example_data [(''flood'', False)] example_params
       \<lparr> results = None \<rparr> = (Inr (None, [LogNoObjectives]), \<lparr> results = None \<rparr>)"
    using optimize_None_iff_no_objective_or_all_failed
         [where objectives = "[(''flood'', False)]" and env = example_env and data = example_data
            and ps = example_params and self = "\<lparr> results = None \<rparr>"]
    by (simp add: active_of_def)
  ultimately show ?thesis by blast
qed

lemma failing_step: "reservoir_step failing_env example_cfg rid = Inr None"
  by (simp add: reservoir_step_problem failing_env_def)

theorem optimize_results_unchanged_unless_success_witness:
  "snd (optimize failing_env example_data example_objectives example_params
          \<lparr> results = Some example_frame_table \<rparr>) = \<lparr> results = Some example_frame_table \<rparr>
   \<and> fst (optimize failing_env example_data example_objectives example_params
          \<lparr> results = Some example_frame_table \<rparr>) =
       Inr (None, [LogDetected 3, LogStart 1, LogFailed 1, LogStart 2, LogFailed 2,
                   LogStart 3, LogFailed 3, LogAllFailed])
   \<and> snd (optimize example_env DataNone [(''flood'', False)] example_params
          \<lparr> results = Some example_frame_table \<rparr>) = \<lparr> results = Some example_frame_table \<rparr>"
proof -
  let ?self = "\<lparr> results = Some example_frame_table \<rparr>"
  let ?lg = "[LogDetected 3, LogStart 1, LogFailed 1, LogStart 2, LogFailed 2,
              LogStart 3, LogFailed 3, LogAllFailed]"
  have ne: "active_of example_objectives \<noteq> []" by (simp add: example_active)
  have "\<forall>rid\<in>set [1..<(3::nat) + 1].
          reservoir_step failing_env example_cfg rid = Inr None"
    using failing_step by blast
  from optimize_all_failed [OF ne example_config_of this example_count, of ?self]
  have run: "fst (optimize failing_env example_data example_objectives example_params ?self) =
               Inr (None, ?lg)"
    unfolding example_range
    by (simp add: example_data_def step_lines_def failing_step)
  have none: "fst (optimize example_env DataNone [(''flood'', False)] example_params ?self) =
               Inr (None, [LogNoObjectives])"
    by (simp add: optimize_no_objectives active_of_def)
  from run none
    optimize_results_unchanged_unless_success
      [of failing_env example_data example_objectives example_params ?self ?lg]
    optimize_results_unchanged_unless_success
      [of example_env DataNone "[(''flood'', False)]" example_params ?self "[LogNoObjectives]"]
  show ?thesis by blast
qed

theorem optimize_table_is_final_population_witness:
  "\<exists>df lg. fst (optimize example_env DataNone example_objectives example_params
                    \<lparr> results = None \<rparr>) = Inr (Some df, lg) \<and>
     columns df = [''flood'', ''supply'', ''reservoir_id'', ''time_step''] \<and>
     rows df = [[CFloat (Fin (1 / 2)), CFloat (Fin 0), CInt 1, CInt 0],
                [CFloat (Fin (3 / 5)), CFloat (Fin 0), CInt 1, CInt 1]]"
proof -
  from example_single_run [of "\<lparr> results = None \<rparr>"] obtain df lg where
    run: "fst (optimize example_env DataNone example_objectives example_params
                 \<lparr> results = None \<rparr>) = Inr (Some df, lg)"
    by force
  from optimize_table_is_final_population [OF run]
  have "columns df = [''flood'', ''supply'', ''reservoir_id'', ''time_step''] \<and>
     rows df = [[CFloat (Fin (1 / 2)), CFloat (Fin 0), CInt 1, CInt 0],
                [CFloat (Fin (3 / 5)), CFloat (Fin 0), CInt 1, CInt 1]]"
    by (simp add: example_active example_config_of example_final_population
        example_population_rows)
  with run show ?thesis by blast
qed

lemma recommend_strategies_ignores_id:
  "recommend_strategies X F acts j = recommend_strategies X F acts i"
  by (simp add: recommend_strategies_def)

lemma build_reservoir_strategy_relabel:
  "build_reservoir_strategy env X F j acts ps h =
     map_sum id (\<lambda>st. st\<lparr> rs_reservoir_id := j \<rparr>) (build_reservoir_strategy env X F i acts ps h)"
  unfolding build_reservoir_strategy_def recommend_strategies_ignores_id [of _ _ _ j i]
  by (simp split: sum.splits)

lemma population_rows_relabel:
  assumes "\<forall>row\<in>set F. length row = m"
  shows "map (\<lambda>(row, v). row[m := v])
           (zip (population_rows F i) (replicate (length (population_rows F i)) (CInt (int j))))
         = population_rows F j"
  using assms
  by (intro nth_equalityI) (simp_all add: population_rows_def nth_enumerate_eq list_update_append)

lemma reservoir_frame_relabel:
  assumes "''reservoir_id'' \<notin> set acts" and "''time_step'' \<notin> set acts"
  shows "reservoir_frame F acts j =
           map_sum id (\<lambda>df. set_column df ''reservoir_id''
                               (replicate (length (rows df)) (CInt (int j))))
             (reservoir_frame F acts i)"
proof (cases "\<forall>row\<in>set F. length row = length acts")
  case False
  then show ?thesis by (auto simp: reservoir_frame_rows [OF assms])
next
  case True
  have idx: "list_index (acts @ [''reservoir_id'', ''time_step'']) ''reservoir_id'' = Inr (length acts)"
    using list_index_append_hit [OF assms(1), of "[''time_step'']"] by simp
  show ?thesis
    using True
    by (simp add: reservoir_frame_rows [OF assms] set_column_def idx
        population_rows_relabel [OF True])
qed

text \<open>
  Claim C10. Within one call every reservoir is run against the same problem and
  algorithm, built from the settings alone: the loop consults \<open>minimize\<close> only at
  \<open>(problem_of cfg, algorithm_of cfg, n_gen, reservoir_id)\<close>, so two optimizers that
  agree there give the same step. The reservoir id enters only as the seed and as the
  label: if the optimizer returns the same for seeds \<open>i\<close> and \<open>j\<close>, the step for
  \<open>j\<close> is the step for \<open>i\<close> with the reservoir id relabelled.
\<close>

theorem reservoirs_share_one_problem:
  "(''reservoir_id'' \<notin> set (cfg_active_objs cfg) \<longrightarrow> ''time_step'' \<notin> set (cfg_active_objs cfg) \<longrightarrow>
      minimize env (problem_of cfg) (algorithm_of cfg) (cfg_n_gen cfg) j =
        minimize env (problem_of cfg) (algorithm_of cfg) (cfg_n_gen cfg) i \<longrightarrow>
      reservoir_step env cfg j = map_sum id (map_option (relabel j)) (reservoir_step env cfg i))
   \<and> (fast_non_dominated_sort env' = fast_non_dominated_sort env \<longrightarrow>
      minimize env' (problem_of cfg) (algorithm_of cfg) (cfg_n_gen cfg) i =
        minimize env (problem_of cfg) (algorithm_of cfg) (cfg_n_gen cfg) i \<longrightarrow>
      reservoir_step env' cfg i = reservoir_step env cfg i)"
proof (intro conjI impI)
  assume a: "''reservoir_id'' \<notin> set (cfg_active_objs cfg)"
    "''time_step'' \<notin> set (cfg_active_objs cfg)"
    and same: "minimize env (problem_of cfg) (algorithm_of cfg) (cfg_n_gen cfg) j =
        minimize env (problem_of cfg) (algorithm_of cfg) (cfg_n_gen cfg) i"
  show "reservoir_step env cfg j = map_sum id (map_option (relabel j)) (reservoir_step env cfg i)"
    unfolding reservoir_step_problem [of env cfg j] reservoir_step_problem [of env cfg i] same
      reservoir_frame_relabel [OF a, of _ j i]
      build_reservoir_strategy_relabel [of env _ _ j _ _ _ i]
    by (simp add: relabel_def split: sum.splits option.splits)
next
  assume "fast_non_dominated_sort env' = fast_non_dominated_sort env"
    and same: "minimize env' (problem_of cfg) (algorithm_of cfg) (cfg_n_gen cfg) i =
        minimize env (problem_of cfg) (algorithm_of cfg) (cfg_n_gen cfg) i"
  then have bs: "build_reservoir_strategy env' X F i acts ps h = build_reservoir_strategy env X F i acts ps h"
    for X F acts ps h
    by (simp add: build_reservoir_strategy_def get_pareto_front_def)
  show "reservoir_step env' cfg i = reservoir_step env cfg i"
    unfolding reservoir_step_problem same bs by (rule refl)
qed

theorem reservoirs_share_one_problem_witness:
  "reservoir_step example_env example_cfg 3 =
     map_sum id (map_option (relabel 3)) (reservoir_step example_env example_cfg 1)
   \<and> problem_of example_cfg =
       \<lparr> n_var = 1, active_objs = [''flood'', ''supply''], Q_min = Fin 0, Q_max = Fin 1000,
         Q_allowed = Fin 1000, Q_target = Fin 500, Q_eco = Fin 0, Head = Fin 50 \<rparr>"
proof -
  have "''reservoir_id'' \<notin> set (cfg_active_objs example_cfg)"
    "''time_step'' \<notin> set (cfg_active_objs example_cfg)"
    by (simp_all add: example_cfg_def)
  moreover have "minimize example_env (problem_of example_cfg) (algorithm_of example_cfg)
        (cfg_n_gen example_cfg) 3 =
      minimize example_env (problem_of example_cfg) (algorithm_of example_cfg)
        (cfg_n_gen example_cfg) 1"
    by (simp add: example_minimize)
  ultimately have "reservoir_step example_env example_cfg 3 =
     map_sum id (map_option (relabel 3)) (reservoir_step example_env example_cfg 1)"
    using reservoirs_share_one_problem [of example_cfg example_env 3 1] by blast
  moreover have "problem_of example_cfg =
       \<lparr> n_var = 1, active_objs = [''flood'', ''supply''], Q_min = Fin 0, Q_max = Fin 1000,
         Q_allowed = Fin 1000, Q_target = Fin 500, Q_eco = Fin 0, Head = Fin 50 \<rparr>"
    by (simp add: problem_of_def example_cfg_def init_problem_def get_float_def example_params_def)
  ultimately show ?thesis by blast
qed

end
